theory Spec2Isabelle
  imports Complex_Main "HOL-Library.Word" "HOL-Library.Char_ord" "HOL-Library.List_Lexorder"
    "HOL-Library.Product_Lexorder"
begin

section \<open>Block-wise raster aggregation of the Risk-Mapper plugin\<close>

text \<open>
  The development embeds the three aggregation algorithms of the plugin:
  \<^verbatim>\<open>algs/frequency_summation.py\<close> (flat summation),
  \<^verbatim>\<open>algs/monthly_frequency.py\<close> and \<^verbatim>\<open>algs/seasonal_frequency.py\<close>.
  Rasters hold integer pixel values. A numpy array of one tile is a function from
  (row, column) inside the tile to a value; its shape is the tile's.
\<close>

subsection \<open>Tiles\<close>

text \<open>Python's \<^verbatim>\<open>range(0, n, step)\<close> for a positive step: 0, step, 2 step, ... below n.\<close>

definition py_range :: "nat \<Rightarrow> nat \<Rightarrow> nat list" where
  "py_range n step = map (\<lambda>k. k * step) [0..<(n + step - 1) div step]"

record tile =
  xoff :: nat
  yoff :: nat
  xsize :: nat
  ysize :: nat

text \<open>
  The two nested loops
  \<^verbatim>\<open>for y in range(0, rows, block_size): ysize = min(block_size, rows - y)\<close>,
  \<^verbatim>\<open>for x in range(0, cols, block_size): xsize = min(block_size, cols - x)\<close>
  visit these windows, in this order.
\<close>

definition tiles :: "nat \<Rightarrow> nat \<Rightarrow> nat \<Rightarrow> tile list" where
  "tiles bs rows cols =
     concat (map (\<lambda>y. map (\<lambda>x. \<lparr>xoff = x, yoff = y,
                                    xsize = min bs (cols - x), ysize = min bs (rows - y)\<rparr>)
                           (py_range cols bs))
                 (py_range rows bs))"

definition block_size :: nat where
  "block_size = 512"

text \<open>The pixels (column, row) of the grid that a tile covers.\<close>

definition tile_cells :: "tile \<Rightarrow> (nat \<times> nat) set" where
  "tile_cells t = {(i, j). xoff t \<le> i \<and> i < xoff t + xsize t \<and> yoff t \<le> j \<and> j < yoff t + ysize t}"

text \<open>Row-major order: an earlier tile lies in an upper row band, or in the same band further left.\<close>

definition row_major_before :: "tile \<Rightarrow> tile \<Rightarrow> bool" where
  "row_major_before a b \<longleftrightarrow> yoff a < yoff b \<or> (yoff a = yoff b \<and> xoff a < xoff b)"

subsection \<open>Rasters, the raster store and the output raster\<close>

text \<open>
  A single-band raster as GDAL presents it: its size, geotransform, projection, the
  nodata value of band 1 (optional) and the pixel of band 1 at (column, row).
\<close>

record raster =
  RasterXSize :: nat
  RasterYSize :: nat
  GeoTransform :: "rat list"
  Projection :: string
  NoDataValue :: "int option"
  band1 :: "nat \<Rightarrow> nat \<Rightarrow> int"

text \<open>\<^verbatim>\<open>gdal.Open(path)\<close>: the dataset, or \<open>None\<close> for a file that cannot be opened.\<close>

type_synonym store = "string \<Rightarrow> raster option"

text \<open>
  The exceptions of a run. \<open>NoTiffFound\<close> is the \<^verbatim>\<open>raise\<close> of the flat summation;
  \<open>OpenFailed\<close> and \<open>ReadFailed\<close> are the attribute errors that follow when
  \<^verbatim>\<open>gdal.Open\<close> or \<^verbatim>\<open>ReadAsArray\<close> has returned \<open>None\<close>; \<open>ValueError\<close> is
  \<^verbatim>\<open>int()\<close> on a token that is no number, \<open>IndexError\<close> and \<open>KeyError\<close> are
  a list index and a dictionary key that do not exist; \<open>NoMetadata\<close> is the use of
  \<^verbatim>\<open>cols\<close> in the seasonal run when no file of the unit has set it.
\<close>

datatype error =
    NoTiffFound
  | OpenFailed string
  | ReadFailed string
  | ValueError string
  | IndexError
  | KeyError string
  | NoMetadata

type_synonym 'a block = "nat \<Rightarrow> nat \<Rightarrow> 'a"

text \<open>
  \<^verbatim>\<open>band.ReadAsArray(x, y, xsize, ysize)\<close>: the window as an array indexed by
  (row, column), or \<open>None\<close> when the window does not lie inside the raster.
\<close>

definition ReadAsArray :: "raster \<Rightarrow> nat \<Rightarrow> nat \<Rightarrow> nat \<Rightarrow> nat \<Rightarrow> int block option" where
  "ReadAsArray ds x y xs ys =
     (if x + xs \<le> RasterXSize ds \<and> y + ys \<le> RasterYSize ds
      then Some (\<lambda>i j. band1 ds (x + j) (y + i)) else None)"

datatype gdal_dtype =
  GDT_Byte | GDT_UInt16 | GDT_UInt32 | GDT_Int16 | GDT_Int32 | GDT_Float32 | GDT_Float64

record out_raster =
  out_cols :: nat
  out_rows :: nat
  out_dtype :: gdal_dtype
  out_options :: "string list"
  out_geo :: "rat list"
  out_proj :: string
  out_nodata :: "int option"
  out_data :: "nat \<Rightarrow> nat \<Rightarrow> int"

text \<open>
  \<^verbatim>\<open>driver.Create(...)\<close> followed by \<^verbatim>\<open>SetGeoTransform\<close>, \<^verbatim>\<open>SetProjection\<close> and
  \<^verbatim>\<open>SetNoDataValue(0)\<close>: a raster of zeros.
\<close>

definition Create :: "nat \<Rightarrow> nat \<Rightarrow> gdal_dtype \<Rightarrow> string list \<Rightarrow> rat list \<Rightarrow> string \<Rightarrow> out_raster" where
  "Create cols rows dt opts geo proj =
     \<lparr>out_cols = cols, out_rows = rows, out_dtype = dt, out_options = opts,
      out_geo = geo, out_proj = proj, out_nodata = Some 0, out_data = (\<lambda>x y. 0)\<rparr>"

text \<open>\<^verbatim>\<open>out_band.WriteArray(out_block, xoff=x, yoff=y)\<close> for the block of one tile.\<close>

definition WriteArray :: "out_raster \<Rightarrow> int block \<Rightarrow> tile \<Rightarrow> out_raster" where
  "WriteArray out blk t =
     out\<lparr>out_data := (\<lambda>x y.
        if xoff t \<le> x \<and> x < xoff t + xsize t \<and> yoff t \<le> y \<and> y < yoff t + ysize t
        then blk (y - yoff t) (x - xoff t) else out_data out x y)\<rparr>"

text \<open>
  The body of the two block loops, common to the three algorithms: compute the block of
  a tile (which may raise) and write it; an exception ends the run.
\<close>

fun write_tiles :: "(tile \<Rightarrow> error + int block) \<Rightarrow> tile list \<Rightarrow> out_raster \<Rightarrow> error + out_raster" where
  "write_tiles f [] out = Inr out"
| "write_tiles f (t # ts) out =
     (case f t of Inl e \<Rightarrow> Inl e | Inr blk \<Rightarrow> write_tiles f ts (WriteArray out blk t))"

text \<open>
  The \<^verbatim>\<open>feedback\<close> object of the host: \<open>isCanceled\<close> is what
  \<^verbatim>\<open>feedback.isCanceled()\<close> would answer once the given number of tile rows has been
  written.
\<close>

record feedback =
  isCanceled :: "nat \<Rightarrow> bool"

subsection \<open>Discovery of input files\<close>

text \<open>
  \<^verbatim>\<open>os.walk\<close> is given by the files it yields, in its order: each file name with the
  path \<^verbatim>\<open>os.path.join(root, fname)\<close>. \<open>lower_char\<close> is \<^verbatim>\<open>str.lower\<close> on an ASCII
  letter, which is all the suffix test depends on.
\<close>

definition lower_char :: "char \<Rightarrow> char" where
  "lower_char c = (let n = of_char c :: nat in if 65 \<le> n \<and> n \<le> 90 then char_of (n + 32) else c)"

definition endswith_tif :: "string \<Rightarrow> bool" where
  "endswith_tif fname \<longleftrightarrow>
     4 \<le> length fname \<and> map lower_char (drop (length fname - 4) fname) = ''.tif''"

subsection \<open>Flat summation (frequency\_summation.py)\<close>

definition gdal_dtype_map :: "nat \<Rightarrow> gdal_dtype" where
  "gdal_dtype_map dtype_idx =
     (if dtype_idx = 0 then GDT_Byte else if dtype_idx = 1 then GDT_UInt16
      else if dtype_idx = 2 then GDT_UInt32 else if dtype_idx = 3 then GDT_Int16
      else if dtype_idx = 4 then GDT_Int32 else if dtype_idx = 5 then GDT_Float32
      else if dtype_idx = 6 then GDT_Float64 else GDT_UInt16)"

definition creation_options :: "nat \<Rightarrow> string list" where
  "creation_options compression_idx =
     (if compression_idx = 1 then [''COMPRESS=LZW'']
      else if compression_idx = 2 then [''COMPRESS=DEFLATE'']
      else if compression_idx = 3 then [''COMPRESS=PACKBITS''] else [])"

text \<open>
  One pass of \<^verbatim>\<open>for raster_path in all_rasters\<close> for a pixel of the window:
  \<^verbatim>\<open>.astype(np.uint32)\<close> wraps the stored integer into 32 bits, then
  \<^verbatim>\<open>data[data == nodata] = 0\<close> compares the converted value with the nodata value.
\<close>

definition nodata_u32 :: "int option \<Rightarrow> int \<Rightarrow> 32 word" where
  "nodata_u32 nodata v =
     (let data = (word_of_int v :: 32 word)
      in case nodata of None \<Rightarrow> data
         | Some nd \<Rightarrow> if uint data = nd then 0 else data)"

fun sum_rasters_u32 :: "store \<Rightarrow> tile \<Rightarrow> string list \<Rightarrow> 32 word block \<Rightarrow> error + 32 word block" where
  "sum_rasters_u32 st t [] block_sum = Inr block_sum"
| "sum_rasters_u32 st t (raster_path # rest) block_sum =
     (case st raster_path of
        None \<Rightarrow> Inl (OpenFailed raster_path)
      | Some ds \<Rightarrow>
         (case ReadAsArray ds (xoff t) (yoff t) (xsize t) (ysize t) of
            None \<Rightarrow> Inl (ReadFailed raster_path)
          | Some a \<Rightarrow>
              sum_rasters_u32 st t rest
                (\<lambda>i j. block_sum i j + nodata_u32 (NoDataValue ds) (a i j))))"

text \<open>\<^verbatim>\<open>np.clip(a, lo, hi)\<close> on one value, and Python's \<^verbatim>\<open>int.bit_length\<close>.\<close>

definition np_clip :: "int \<Rightarrow> int \<Rightarrow> int \<Rightarrow> int" where
  "np_clip a lo hi = min (max a lo) hi"

function bit_length :: "nat \<Rightarrow> nat" where
  "bit_length n = (if n = 0 then 0 else Suc (bit_length (n div 2)))"
  by pat_completeness auto
termination
  by (relation "measure id") auto

declare bit_length.simps [simp del]

text \<open>
  The value of the 32-bit float nearest to a natural number below \<open>2 ^ 32\<close>: 24
  significant bits are kept, ties go to the even significand.
\<close>

definition astype_float32 :: "nat \<Rightarrow> nat" where
  "astype_float32 n =
     (if n < 2 ^ 24 then n
      else let e = bit_length n - 24; q = n div 2 ^ e; r = n mod 2 ^ e; half = 2 ^ (e - 1)
           in (if half < r \<or> (r = half \<and> odd q) then q + 1 else q) * 2 ^ e)"

text \<open>
  The cast of one accumulated value to the output type; the result is the number the
  output pixel holds. The integer casts are \<^verbatim>\<open>np.clip(...).astype(...)\<close>, where
  \<^verbatim>\<open>astype\<close> alone would wrap.
\<close>

definition cast_block :: "gdal_dtype \<Rightarrow> 32 word \<Rightarrow> int" where
  "cast_block dt v =
     (case dt of
        GDT_Byte \<Rightarrow> uint (word_of_int (np_clip (uint v) 0 255) :: 8 word)
      | GDT_UInt16 \<Rightarrow> uint (word_of_int (np_clip (uint v) 0 65535) :: 16 word)
      | GDT_UInt32 \<Rightarrow> uint (word_of_int (np_clip (uint v) 0 4294967295) :: 32 word)
      | GDT_Int16 \<Rightarrow> sint (word_of_int (np_clip (uint v) (- 32768) 32767) :: 16 word)
      | GDT_Int32 \<Rightarrow> sint (word_of_int (np_clip (uint v) (- 2147483648) 2147483647) :: 32 word)
      | GDT_Float32 \<Rightarrow> int (astype_float32 (unat v))
      | GDT_Float64 \<Rightarrow> uint v)"

definition summation_block :: "store \<Rightarrow> string list \<Rightarrow> gdal_dtype \<Rightarrow> tile \<Rightarrow> error + int block" where
  "summation_block st all_rasters dt t =
     (case sum_rasters_u32 st t all_rasters (\<lambda>i j. 0) of
        Inl e \<Rightarrow> Inl e
      | Inr block_sum \<Rightarrow> Inr (\<lambda>i j. cast_block dt (block_sum i j)))"

definition summation_processAlgorithm ::
  "feedback \<Rightarrow> store \<Rightarrow> (string \<times> string) list \<Rightarrow> nat \<Rightarrow> nat \<Rightarrow> error + out_raster" where
  "summation_processAlgorithm fb st walk dtype_idx compression_idx =
     (let out_gdal_dtype = gdal_dtype_map dtype_idx;
          all_rasters = map snd (filter (\<lambda>(fname, path). endswith_tif fname) walk)
      in case all_rasters of
           [] \<Rightarrow> Inl NoTiffFound
         | first # _ \<Rightarrow>
            (case st first of
               None \<Rightarrow> Inl (OpenFailed first)
             | Some sample_ds \<Rightarrow>
                 let cols = RasterXSize sample_ds; rows = RasterYSize sample_ds;
                     out_ds = Create cols rows out_gdal_dtype (creation_options compression_idx)
                                (GeoTransform sample_ds) (Projection sample_ds)
                 in write_tiles (summation_block st all_rasters out_gdal_dtype)
                      (tiles block_size rows cols) out_ds))"

subsection \<open>File names with a date\<close>

definition is_digit :: "char \<Rightarrow> bool" where
  "is_digit c \<longleftrightarrow> (let n = of_char c :: nat in 48 \<le> n \<and> n \<le> 57)"

text \<open>
  The pattern \<^verbatim>\<open>\d{4}-(\d{2})-\d{2}\<close> (in the seasonal run with the year as a group
  too) matched at the start of a string, and \<^verbatim>\<open>re.search\<close>: the match at the first
  position, from the left, where the pattern matches. The result is the pair of the year
  digits and the month digits.
\<close>

definition date_at :: "string \<Rightarrow> bool" where
  "date_at s \<longleftrightarrow>
     10 \<le> length s \<and> list_all is_digit (take 4 s) \<and> s ! 4 = CHR ''-'' \<and>
     list_all is_digit (take 2 (drop 5 s)) \<and> s ! 7 = CHR ''-'' \<and>
     list_all is_digit (take 2 (drop 8 s))"

fun re_search_date :: "string \<Rightarrow> (string \<times> string) option" where
  "re_search_date [] = None"
| "re_search_date (c # cs) =
     (if date_at (c # cs) then Some (take 4 (c # cs), take 2 (drop 5 (c # cs)))
      else re_search_date cs)"

text \<open>\<^verbatim>\<open>int()\<close> on a token of decimal digits; any other token is a \<^verbatim>\<open>ValueError\<close>.\<close>

definition int_of_digits :: "string \<Rightarrow> int" where
  "int_of_digits s = foldl (\<lambda>a c. 10 * a + (int (of_char c) - 48)) 0 s"

definition py_int :: "string \<Rightarrow> int option" where
  "py_int s = (if s \<noteq> [] \<and> list_all is_digit s then Some (int_of_digits s) else None)"

text \<open>
  A \<^verbatim>\<open>defaultdict(list)\<close> in insertion order, and \<^verbatim>\<open>d[k].append(v)\<close>.
\<close>

fun dd_append :: "'k \<Rightarrow> 'v \<Rightarrow> ('k \<times> 'v list) list \<Rightarrow> ('k \<times> 'v list) list" where
  "dd_append k v [] = [(k, [v])]"
| "dd_append k v ((k', vs) # al) =
     (if k' = k then (k', vs @ [v]) # al else (k', vs) # dd_append k v al)"

text \<open>The messages pushed to the feedback object.\<close>

datatype message =
    Classified string string
  | SkippingFile string
  | SkippingBadName string
  | ProcessingUnit string nat
  | Saved string
  | AllCreated

subsection \<open>The sums of the calendar algorithms\<close>

text \<open>
  The calendar algorithms accumulate in \<^verbatim>\<open>np.float32\<close>. The rasters they sum hold
  flags and counts; a 32-bit float holds every integer of magnitude up to \<open>2 ^ 24\<close>
  exactly, and on these the float sum is the integer sum. Values are written as the
  integers they denote; rounding beyond that range is outside this model.
\<close>

definition nodata_f32 :: "int option \<Rightarrow> int \<Rightarrow> int" where
  "nodata_f32 nd v = (case nd of None \<Rightarrow> v | Some n \<Rightarrow> if v = n then 0 else v)"

fun sum_rasters_f32 :: "store \<Rightarrow> tile \<Rightarrow> string list \<Rightarrow> int block \<Rightarrow> error + int block" where
  "sum_rasters_f32 st t [] block_sum = Inr block_sum"
| "sum_rasters_f32 st t (r # rest) block_sum =
     (case st r of
        None \<Rightarrow> Inl (OpenFailed r)
      | Some ds \<Rightarrow>
         (case ReadAsArray ds (xoff t) (yoff t) (xsize t) (ysize t) of
            None \<Rightarrow> Inl (ReadFailed r)
          | Some a \<Rightarrow>
              sum_rasters_f32 st t rest
                (\<lambda>i j. block_sum i j + nodata_f32 (NoDataValue ds) (a i j))))"

text \<open>
  The seasonal loop \<^verbatim>\<open>for tif_path in final_files\<close>: \<^verbatim>\<open>if tif_path:\<close> holds for a
  non-empty path; otherwise \<^verbatim>\<open>block_sum += 0\<close>.
\<close>

fun sum_final_files :: "store \<Rightarrow> tile \<Rightarrow> string option list \<Rightarrow> int block \<Rightarrow> error + int block" where
  "sum_final_files st t [] block_sum = Inr block_sum"
| "sum_final_files st t (tif_path # rest) block_sum =
     (if tif_path \<noteq> None \<and> tif_path \<noteq> Some []
      then (case st (the tif_path) of
              None \<Rightarrow> Inl (OpenFailed (the tif_path))
            | Some ds \<Rightarrow>
               (case ReadAsArray ds (xoff t) (yoff t) (xsize t) (ysize t) of
                  None \<Rightarrow> Inl (ReadFailed (the tif_path))
                | Some a \<Rightarrow>
                    sum_final_files st t rest
                      (\<lambda>i j. block_sum i j + nodata_f32 (NoDataValue ds) (a i j))))
      else sum_final_files st t rest (\<lambda>i j. block_sum i j + 0))"

subsection \<open>Monthly frequency (monthly\_frequency.py)\<close>

text \<open>The walk over the input folder: each \<^verbatim>\<open>.tif\<close> file is grouped by month or skipped.\<close>

fun classify_monthly ::
  "(string \<times> string) list \<Rightarrow> (string \<times> string list) list \<times> message list
     \<Rightarrow> (string \<times> string list) list \<times> message list" where
  "classify_monthly [] acc = acc"
| "classify_monthly ((fname, full_path) # files) (rasters_by_month, msgs) =
     (if endswith_tif fname
      then (case re_search_date fname of
              Some (year, month) \<Rightarrow>
                classify_monthly files
                  (dd_append month full_path rasters_by_month, msgs @ [Classified fname month])
            | None \<Rightarrow> classify_monthly files (rasters_by_month, msgs @ [SkippingFile fname]))
      else classify_monthly files (rasters_by_month, msgs))"

text \<open>One pass of the loop \<^verbatim>\<open>for month, rasters in sorted(rasters_by_month.items())\<close>.\<close>

definition monthly_unit :: "store \<Rightarrow> string list \<Rightarrow> error + out_raster" where
  "monthly_unit st rasters =
     (case st (hd rasters) of
        None \<Rightarrow> Inl (OpenFailed (hd rasters))
      | Some ds \<Rightarrow>
          let cols = RasterXSize ds; rows = RasterYSize ds;
              out_ds = Create cols rows GDT_Float32 [''COMPRESS=LZW''] (GeoTransform ds) (Projection ds)
          in write_tiles (\<lambda>t. sum_rasters_f32 st t rasters (\<lambda>i j. 0)) (tiles block_size rows cols) out_ds)"

fun monthly_units ::
  "store \<Rightarrow> string \<Rightarrow> (string \<times> string list) list \<Rightarrow> (string \<times> out_raster) list \<times> message list
     \<Rightarrow> error + (string \<times> out_raster) list \<times> message list" where
  "monthly_units st prefix [] acc = Inr acc"
| "monthly_units st prefix ((month, rasters) # units) (outputs, msgs) =
     (if length rasters = 0 then monthly_units st prefix units (outputs, msgs)
      else (case monthly_unit st rasters of
              Inl e \<Rightarrow> Inl e
            | Inr out_ds \<Rightarrow>
                monthly_units st prefix units
                  (outputs @ [(prefix @ month @ ''.tif'', out_ds)],
                   msgs @ [ProcessingUnit month (length rasters), Saved (prefix @ month @ ''.tif'')])))"

text \<open>
  The whole run: the outputs by file name, and the messages. A normal return ends with
  the message that all maps were created.
\<close>

definition monthly_processAlgorithm ::
  "feedback \<Rightarrow> store \<Rightarrow> (string \<times> string) list \<Rightarrow> string
     \<Rightarrow> error + (string \<times> out_raster) list \<times> message list" where
  "monthly_processAlgorithm fb st walk prefix =
     (let (rasters_by_month, msgs) = classify_monthly walk ([], [])
      in case monthly_units st prefix (sort_key fst rasters_by_month) ([], msgs) of
           Inl e \<Rightarrow> Inl e
         | Inr (outputs, msgs') \<Rightarrow> Inr (outputs, msgs' @ [AllCreated]))"

subsection \<open>Seasonal frequency (seasonal\_frequency.py)\<close>

text \<open>
  An observation is (year, month token, path). The seasons are the dictionary
  \<^verbatim>\<open>seasons\<close> that the run builds from the parameter table, in insertion order: season
  name and month tokens.
\<close>

type_synonym obs = "int \<times> string \<times> string"

fun collect_seasonal ::
  "(string \<times> string) list \<Rightarrow> obs list \<times> message list \<Rightarrow> obs list \<times> message list" where
  "collect_seasonal [] acc = acc"
| "collect_seasonal ((fname, full_path) # files) (rasters, msgs) =
     (if \<not> endswith_tif fname then collect_seasonal files (rasters, msgs)
      else (case re_search_date fname of
              None \<Rightarrow> collect_seasonal files (rasters, msgs @ [SkippingBadName fname])
            | Some (year, month) \<Rightarrow>
                if int_of_digits year = 0 \<or> month = []
                then collect_seasonal files (rasters, msgs @ [SkippingBadName fname])
                else collect_seasonal files
                       (rasters @ [(int_of_digits year, month, full_path)], msgs)))"

text \<open>
  The inner loop \<^verbatim>\<open>for y, m, f in rasters\<close> for one season, and the outer loop over
  \<^verbatim>\<open>seasons.items()\<close>.
\<close>

fun bucket_rasters ::
  "string \<Rightarrow> string list \<Rightarrow> int \<Rightarrow> obs list \<Rightarrow> ((int \<times> string) \<times> obs list) list
     \<Rightarrow> ((int \<times> string) \<times> obs list) list" where
  "bucket_rasters season_name season_months first_month [] season_raster_map = season_raster_map"
| "bucket_rasters season_name season_months first_month ((y, m, f) # rasters) season_raster_map =
     (let m_int = int_of_digits m
      in if m \<in> set season_months
         then (let season_year = (if m_int \<ge> first_month then y else y - 1)
               in bucket_rasters season_name season_months first_month rasters
                    (dd_append (season_year, season_name) (y, m, f) season_raster_map))
         else bucket_rasters season_name season_months first_month rasters season_raster_map)"

fun build_season_map ::
  "(string \<times> string list) list \<Rightarrow> obs list \<Rightarrow> ((int \<times> string) \<times> obs list) list
     \<Rightarrow> error + ((int \<times> string) \<times> obs list) list" where
  "build_season_map [] rasters season_raster_map = Inr season_raster_map"
| "build_season_map ((season_name, season_months) # seasons) rasters season_raster_map =
     (case season_months of
        [] \<Rightarrow> Inl IndexError
      | tok # _ \<Rightarrow>
         (case py_int tok of
            None \<Rightarrow> Inl (ValueError tok)
          | Some first_month \<Rightarrow>
              build_season_map seasons rasters
                (bucket_rasters season_name season_months first_month rasters season_raster_map)))"

text \<open>
  The contributor list of one (season-year, season): for each month of the season, the
  first file of the bucket with that month token (\<^verbatim>\<open>next(..., None)\<close>), or \<open>None\<close>.
\<close>

definition final_files :: "string list \<Rightarrow> obs list \<Rightarrow> string option list" where
  "final_files season_months month_files =
     map (\<lambda>m. case find (\<lambda>(y, mon, f). mon = m) month_files of
                 Some (y, mon, f) \<Rightarrow> Some f
               | None \<Rightarrow> None) season_months"

definition seasonal_unit :: "store \<Rightarrow> string list \<Rightarrow> obs list \<Rightarrow> error + out_raster" where
  "seasonal_unit st season_months month_files =
     (let ff = final_files season_months month_files
      in case find (\<lambda>f. f \<noteq> None \<and> f \<noteq> Some []) ff of
           None \<Rightarrow> Inl NoMetadata
         | Some f \<Rightarrow>
            (case st (the f) of
               None \<Rightarrow> Inl (OpenFailed (the f))
             | Some ds \<Rightarrow>
                 let cols = RasterXSize ds; rows = RasterYSize ds;
                     out_ds = Create cols rows GDT_Float32 [''COMPRESS=LZW'']
                                (GeoTransform ds) (Projection ds)
                 in write_tiles (\<lambda>t. sum_final_files st t ff (\<lambda>i j. 0))
                      (tiles block_size rows cols) out_ds))"

fun seasonal_units ::
  "store \<Rightarrow> (string \<times> string list) list \<Rightarrow> ((int \<times> string) \<times> obs list) list
     \<Rightarrow> ((int \<times> string) \<times> out_raster) list
     \<Rightarrow> error + ((int \<times> string) \<times> out_raster) list" where
  "seasonal_units st seasons [] results = Inr results"
| "seasonal_units st seasons (((season_year, season_name), month_files) # units) results =
     (if month_files = [] then seasonal_units st seasons units results
      else (case map_of seasons season_name of
              None \<Rightarrow> Inl (KeyError season_name)
            | Some season_months \<Rightarrow>
               (case seasonal_unit st season_months month_files of
                  Inl e \<Rightarrow> Inl e
                | Inr out_ds \<Rightarrow>
                    seasonal_units st seasons units
                      (results @ [((season_year, season_name), out_ds)]))))"

definition seasonal_processAlgorithm ::
  "feedback \<Rightarrow> store \<Rightarrow> (string \<times> string) list \<Rightarrow> (string \<times> string list) list
     \<Rightarrow> error + ((int \<times> string) \<times> out_raster) list \<times> message list" where
  "seasonal_processAlgorithm fb st walk seasons =
     (let (rasters, msgs) = collect_seasonal walk ([], []);
          sorted_rasters = sort_key (\<lambda>(y, m, f). (y, int_of_digits m)) rasters
      in case build_season_map seasons sorted_rasters [] of
           Inl e \<Rightarrow> Inl e
         | Inr season_raster_map \<Rightarrow>
            (case seasonal_units st seasons (sort_key fst season_raster_map) [] of
               Inl e \<Rightarrow> Inl e
             | Inr results \<Rightarrow> Inr (results, msgs @ [AllCreated])))"

subsection \<open>Notions of the statements and example inputs\<close>

text \<open>
  What one pixel of a contributor adds to the 32-bit accumulator in the flat summation, and
  when a contributor can be read for a tile: it opens and the tile's window lies inside it.
\<close>

definition contribution_u32 :: "raster \<Rightarrow> nat \<Rightarrow> nat \<Rightarrow> 32 word" where
  "contribution_u32 ds x y = nodata_u32 (NoDataValue ds) (band1 ds x y)"

definition readable :: "store \<Rightarrow> tile \<Rightarrow> string \<Rightarrow> bool" where
  "readable st t p \<longleftrightarrow>
     (case st p of None \<Rightarrow> False
      | Some ds \<Rightarrow> xoff t + xsize t \<le> RasterXSize ds \<and> yoff t + ysize t \<le> RasterYSize ds)"

text \<open>
  Reading a \<^verbatim>\<open>defaultdict(list)\<close>, and the season-year rule of the bucket loop taken alone.
\<close>

definition lookup_dd :: "('k \<times> 'v list) list \<Rightarrow> 'k \<Rightarrow> 'v list" where
  "lookup_dd al k = (case map_of al k of None \<Rightarrow> [] | Some vs \<Rightarrow> vs)"

definition season_year_of :: "int \<Rightarrow> int \<Rightarrow> string \<Rightarrow> int" where
  "season_year_of first_month y m = (if int_of_digits m \<ge> first_month then y else y - 1)"

text \<open>A season that crosses the year boundary, two observations and their buckets.\<close>

definition DJF :: "(string \<times> string list) list" where
  "DJF = [(''DJF'', [''12'', ''01'', ''02''])]"

definition obs_2023 :: "obs list" where
  "obs_2023 = [(2023, ''01'', ''flood_2023-01-10.tif''), (2023, ''12'', ''flood_2023-12-10.tif'')]"

definition buckets_2023 :: "((int \<times> string) \<times> obs list) list" where
  "buckets_2023 =
     [((2022, ''DJF''), [(2023, ''01'', ''flood_2023-01-10.tif'')]),
      ((2023, ''DJF''), [(2023, ''12'', ''flood_2023-12-10.tif'')])]"

text \<open>Small inputs: rasters of one pixel, a folder with two of them, a feedback that never cancels.\<close>

definition raster_1x1 :: "int \<Rightarrow> int option \<Rightarrow> raster" where
  "raster_1x1 v nd =
     \<lparr>RasterXSize = 1, RasterYSize = 1, GeoTransform = [0, 1, 0, 0, 0, - 1],
      Projection = ''EPSG:4326'', NoDataValue = nd, band1 = (\<lambda>x y. v)\<rparr>"

definition store_200 :: store where
  "store_200 p = (if p = ''in/a.tif'' \<or> p = ''in/b.tif'' then Some (raster_1x1 200 None) else None)"

definition walk_ab :: "(string \<times> string) list" where
  "walk_ab = [(''a.tif'', ''in/a.tif''), (''b.tif'', ''in/b.tif'')]"

definition no_cancel :: feedback where
  "no_cancel = \<lparr>isCanceled = (\<lambda>k. False)\<rparr>"

text \<open>
  A folder with one raster of type Int16 whose only pixel holds its nodata value -9999,
  and a raster of three tile rows: one column, 1025 rows, every pixel 1.
\<close>

definition store_neg :: store where
  "store_neg p = (if p = ''in/a.tif'' then Some (raster_1x1 (- 9999) (Some (- 9999))) else None)"

definition walk_a :: "(string \<times> string) list" where
  "walk_a = [(''a.tif'', ''in/a.tif'')]"

definition column_1025 :: raster where
  "column_1025 =
     \<lparr>RasterXSize = 1, RasterYSize = 1025, GeoTransform = [0, 1, 0, 0, 0, - 1],
      Projection = ''EPSG:4326'', NoDataValue = None, band1 = (\<lambda>x y. 1)\<rparr>"

definition store_column :: store where
  "store_column p = (if p = ''in/a.tif'' then Some column_1025 else None)"

definition cancel_after_first_row :: feedback where
  "cancel_after_first_row = \<lparr>isCanceled = (\<lambda>k. 1 \<le> k)\<rparr>"

text \<open>
  What one pixel of a contributor adds to the accumulator of the calendar algorithms, the
  files of a seasonal contributor list that are read, and when a contributor fits a
  reference raster: it opens and is at least as wide and as high.
\<close>

definition contribution_f32 :: "raster \<Rightarrow> nat \<Rightarrow> nat \<Rightarrow> int" where
  "contribution_f32 ds x y = nodata_f32 (NoDataValue ds) (band1 ds x y)"

definition present_files :: "string option list \<Rightarrow> string list" where
  "present_files ff = map the (filter (\<lambda>f. f \<noteq> None \<and> f \<noteq> Some []) ff)"

definition fits :: "store \<Rightarrow> raster \<Rightarrow> string \<Rightarrow> bool" where
  "fits st ref p \<longleftrightarrow>
     (case st p of None \<Rightarrow> False
      | Some ds \<Rightarrow> RasterXSize ref \<le> RasterXSize ds \<and> RasterYSize ref \<le> RasterYSize ds)"

text \<open>
  A folder whose second raster differs from the first in width, height, geotransform and
  projection, and a seasonal bucket over the same two files.
\<close>

definition big_raster :: raster where
  "big_raster =
     \<lparr>RasterXSize = 2, RasterYSize = 2, GeoTransform = [100, 30, 0, 200, 0, - 30],
      Projection = ''EPSG:32644'', NoDataValue = None, band1 = (\<lambda>x y. 2)\<rparr>"

definition store_mismatch :: store where
  "store_mismatch p =
     (if p = ''in/a.tif'' then Some (raster_1x1 1 None)
      else if p = ''in/b.tif'' then Some big_raster else None)"

definition bucket_ab :: "obs list" where
  "bucket_ab = [(2021, ''01'', ''in/a.tif''), (2021, ''02'', ''in/b.tif'')]"



text \<open>
  The key of the monthly classifier: group 1 of the match. In the words of the
  specification, a date is a string of the form YYYY-MM-DD, and a file name has a date
  where it contains such a string.
\<close>

definition month_key :: "string \<Rightarrow> string option" where
  "month_key fname = map_option snd (re_search_date fname)"

definition date_shaped :: "string \<Rightarrow> bool" where
  "date_shaped d \<longleftrightarrow>
     length d = 10 \<and> list_all is_digit (take 4 d) \<and> d ! 4 = CHR ''-'' \<and>
     list_all is_digit (take 2 (drop 5 d)) \<and> d ! 7 = CHR ''-'' \<and>
     list_all is_digit (drop 8 d)"

text \<open>The three files of the monthly scenario.\<close>

definition walk_2021 :: "(string \<times> string) list" where
  "walk_2021 =
     [(''flood_2021-01-15.tif'', ''in/flood_2021-01-15.tif''),
      (''flood_2021-01-28.tif'', ''in/flood_2021-01-28.tif''),
      (''flood_2021-02-01.tif'', ''in/flood_2021-02-01.tif'')]"


section \<open>Properties\<close>

subsection \<open>Facts about the tile partition\<close>

lemma py_range_sorted: "0 < step \<Longrightarrow> sorted_wrt (<) (py_range n step)"
  by (simp add: py_range_def sorted_wrt_map sorted_wrt_upt)

lemma py_range_mem:
  assumes "0 < step"
  shows "v \<in> set (py_range n step) \<longleftrightarrow> v < n \<and> step dvd v"
proof
  assume "v \<in> set (py_range n step)"
  then have "v \<in> (\<lambda>k. k * step) ` {0..<(n + step - 1) div step}"
    by (simp add: py_range_def)
  then have "\<exists>k. v = k * step \<and> k < (n + step - 1) div step"
    by (elim imageE) (simp del: mult_cancel2, blast)
  then obtain k where k: "v = k * step" "k < (n + step - 1) div step"
    by blast
  have "k * step < n"
  proof (rule ccontr)
    assume "\<not> k * step < n"
    then have "n + step - 1 < (k + 1) * step" using assms by (simp add: algebra_simps)
    then have "(n + step - 1) div step < k + 1" by (rule less_mult_imp_div_less)
    with k(2) show False by simp
  qed
  with k show "v < n \<and> step dvd v" by simp
next
  assume a: "v < n \<and> step dvd v"
  then obtain k where k: "v = k * step" by (auto simp: dvd_def mult.commute)
  have "(k + 1) * step \<le> n + step - 1" using a k assms by (simp add: algebra_simps)
  then have "k + 1 \<le> (n + step - 1) div step"
    using assms by (simp add: less_eq_div_iff_mult_less_eq)
  then have "k \<in> {0..<(n + step - 1) div step}" by simp
  then have "k * step \<in> (\<lambda>k. k * step) ` {0..<(n + step - 1) div step}" by (rule imageI)
  then show "v \<in> set (py_range n step)"
    by (simp add: py_range_def k)
qed

lemma tiles_mem:
  "t \<in> set (tiles bs rows cols) \<longleftrightarrow>
     (\<exists>x \<in> set (py_range cols bs). \<exists>y \<in> set (py_range rows bs).
        t = \<lparr>xoff = x, yoff = y, xsize = min bs (cols - x), ysize = min bs (rows - y)\<rparr>)"
  by (auto simp: tiles_def)

lemma sorted_wrt_rows:
  assumes "sorted_wrt (<) ys" and "sorted_wrt (<) xs"
    and "\<And>x y. yoff (mk y x) = y" and "\<And>x y. xoff (mk y x) = x"
  shows "sorted_wrt row_major_before (concat (map (\<lambda>y. map (mk y) xs) ys))"
  using assms(1)
proof (induction ys)
  case Nil
  then show ?case by simp
next
  case (Cons y ys)
  have row: "sorted_wrt row_major_before (map (mk y) xs)"
    using assms(2) by (simp add: sorted_wrt_map row_major_before_def assms(3,4))
  have later: "\<forall>a \<in> set (map (mk y) xs). \<forall>b \<in> set (concat (map (\<lambda>y. map (mk y) xs) ys)).
                 row_major_before a b"
    using Cons.prems by (auto simp: row_major_before_def assms(3))
  from Cons row later show ?case
    by (simp add: sorted_wrt_append)
qed

lemma tiles_row_major:
  assumes "0 < bs"
  shows "sorted_wrt row_major_before (tiles bs rows cols)"
  unfolding tiles_def
  by (rule sorted_wrt_rows) (simp_all add: py_range_sorted assms)

lemma window_index:
  assumes "0 < (bs::nat)" and "bs dvd x" and "x < n"
  shows "x \<le> i \<and> i < x + min bs (n - x) \<longleftrightarrow> i < n \<and> x = (i div bs) * bs"
proof -
  from assms(2) have "x = (x div bs) * bs" by (rule dvd_div_mult_self [symmetric])
  then obtain k where k: "x = k * bs" ..
  have "k * bs \<le> i \<and> i < k * bs + bs \<longleftrightarrow> i div bs = k"
    using assms(1) by (metis add.commute div_nat_eqI dividend_less_times_div mult.commute times_div_less_eq_dividend mult_Suc_right)
  moreover have "x \<le> i \<and> i < x + min bs (n - x) \<longleftrightarrow> i < n \<and> x \<le> i \<and> i < x + bs"
    using assms(3) by auto
  ultimately show ?thesis
    using k assms(1) by auto
qed

lemma tile_cells_iff:
  assumes "0 < bs" and "t \<in> set (tiles bs rows cols)"
  shows "(i, j) \<in> tile_cells t \<longleftrightarrow>
           i < cols \<and> j < rows \<and> xoff t = (i div bs) * bs \<and> yoff t = (j div bs) * bs"
proof -
  from assms(2) obtain x y where xy: "x < cols" "bs dvd x" "y < rows" "bs dvd y"
    and t: "t = \<lparr>xoff = x, yoff = y, xsize = min bs (cols - x), ysize = min bs (rows - y)\<rparr>"
    by (auto simp: tiles_mem py_range_mem [OF assms(1)])
  show ?thesis
    using window_index [OF assms(1) xy(2) xy(1), of i] window_index [OF assms(1) xy(4) xy(3), of j]
    by (auto simp: tile_cells_def t)
qed

subsection \<open>The tile partition\<close>

text \<open>
  Claim C7. For a grid of width W and height H and a tile edge T, all at least 1, the
  windows visited by the two block loops are non-empty, at most T wide and T high, and lie
  inside the grid; together they cover exactly the pixels of the grid; two different
  windows share no pixel; and the windows are visited in row-major order.
\<close>

theorem tiles_partition:
  assumes "1 \<le> W" and "1 \<le> H" and "1 \<le> T"
  shows "(\<forall>t \<in> set (tiles T H W).
            1 \<le> xsize t \<and> xsize t \<le> T \<and> 1 \<le> ysize t \<and> ysize t \<le> T \<and>
            xoff t + xsize t \<le> W \<and> yoff t + ysize t \<le> H) \<and>
         (\<Union>t \<in> set (tiles T H W). tile_cells t) = {0..<W} \<times> {0..<H} \<and>
         (\<forall>k l. k < l \<and> l < length (tiles T H W) \<longrightarrow>
            tile_cells (tiles T H W ! k) \<inter> tile_cells (tiles T H W ! l) = {}) \<and>
         sorted_wrt row_major_before (tiles T H W)"
proof (intro conjI)
  have T: "0 < T" using assms(3) by simp
  show "\<forall>t \<in> set (tiles T H W).
            1 \<le> xsize t \<and> xsize t \<le> T \<and> 1 \<le> ysize t \<and> ysize t \<le> T \<and>
            xoff t + xsize t \<le> W \<and> yoff t + ysize t \<le> H"
  proof
    fix t assume "t \<in> set (tiles T H W)"
    then obtain x y where xy: "x < W" "y < H"
      and t: "t = \<lparr>xoff = x, yoff = y, xsize = min T (W - x), ysize = min T (H - y)\<rparr>"
      using T by (auto simp: tiles_mem py_range_mem)
    show "1 \<le> xsize t \<and> xsize t \<le> T \<and> 1 \<le> ysize t \<and> ysize t \<le> T \<and>
            xoff t + xsize t \<le> W \<and> yoff t + ysize t \<le> H"
      unfolding t using xy T by (auto simp: min_def)
  qed
  show order: "sorted_wrt row_major_before (tiles T H W)"
    by (rule tiles_row_major [OF T])
  show "(\<Union>t \<in> set (tiles T H W). tile_cells t) = {0..<W} \<times> {0..<H}"
  proof (rule set_eqI)
    fix p :: "nat \<times> nat"
    obtain i j where p: "p = (i, j)" by (cases p)
    let ?t = "\<lparr>xoff = (i div T) * T, yoff = (j div T) * T,
               xsize = min T (W - (i div T) * T), ysize = min T (H - (j div T) * T)\<rparr>"
    have "p \<in> (\<Union>t \<in> set (tiles T H W). tile_cells t)" if "i < W" "j < H"
    proof -
      have "(i div T) * T < W" "(j div T) * T < H"
        using that by (meson div_times_less_eq_dividend le_less_trans)+
      then have mem: "?t \<in> set (tiles T H W)"
        using T by (auto simp: tiles_mem py_range_mem)
      have "(i, j) \<in> tile_cells ?t"
        using that by (simp add: tile_cells_iff [OF T mem])
      with mem show ?thesis unfolding p by blast
    qed
    moreover have "i < W \<and> j < H" if "p \<in> (\<Union>t \<in> set (tiles T H W). tile_cells t)"
      using that tile_cells_iff [OF T] unfolding p by blast
    ultimately show "p \<in> (\<Union>t \<in> set (tiles T H W). tile_cells t) \<longleftrightarrow> p \<in> {0..<W} \<times> {0..<H}"
      unfolding p by auto
  qed
  show "\<forall>k l. k < l \<and> l < length (tiles T H W) \<longrightarrow>
            tile_cells (tiles T H W ! k) \<inter> tile_cells (tiles T H W ! l) = {}"
  proof (intro allI impI)
    fix k l assume kl: "k < l \<and> l < length (tiles T H W)"
    then have before: "row_major_before (tiles T H W ! k) (tiles T H W ! l)"
      using order by (simp add: sorted_wrt_nth_less)
    have mk: "tiles T H W ! k \<in> set (tiles T H W)" and ml: "tiles T H W ! l \<in> set (tiles T H W)"
      using kl by simp_all
    show "tile_cells (tiles T H W ! k) \<inter> tile_cells (tiles T H W ! l) = {}"
    proof (rule ccontr)
      assume "tile_cells (tiles T H W ! k) \<inter> tile_cells (tiles T H W ! l) \<noteq> {}"
      then obtain i j where "(i, j) \<in> tile_cells (tiles T H W ! k)" "(i, j) \<in> tile_cells (tiles T H W ! l)"
        by auto
      then have "xoff (tiles T H W ! k) = xoff (tiles T H W ! l)" "yoff (tiles T H W ! k) = yoff (tiles T H W ! l)"
        by (simp_all add: tile_cells_iff [OF T mk] tile_cells_iff [OF T ml])
      with before show False by (simp add: row_major_before_def)
    qed
  qed
qed

theorem tiles_partition_witness:
  "(1::nat) \<le> 3 \<and> (1::nat) \<le> 2 \<and> (1::nat) \<le> 2 \<and>
   (\<Union>t \<in> set (tiles 2 2 3). tile_cells t) = {0..<3} \<times> {0..<2} \<and>
   sorted_wrt row_major_before (tiles 2 2 3)"
  using tiles_partition [of 3 2 2] by simp

subsection \<open>Writing tiles and summing contributors\<close>

lemma write_tiles_fields:
  "write_tiles f ts out = Inr out' \<Longrightarrow>
     out_cols out' = out_cols out \<and> out_rows out' = out_rows out \<and> out_dtype out' = out_dtype out \<and>
     out_options out' = out_options out \<and> out_geo out' = out_geo out \<and> out_proj out' = out_proj out \<and>
     out_nodata out' = out_nodata out"
  by (induction ts arbitrary: out) (auto simp: WriteArray_def split: sum.splits)

lemma write_tiles_pixel:
  assumes "(x, y) \<in> tile_cells t"
    and "\<forall>t' \<in> set ts. (x, y) \<in> tile_cells t' \<longrightarrow> t' = t"
    and "write_tiles f ts out = Inr out'"
    and "t \<in> set ts \<Longrightarrow> f t = Inr blk"
  shows "out_data out' x y =
           (if t \<in> set ts then blk (y - yoff t) (x - xoff t) else out_data out x y)"
  using assms(2,3,4)
proof (induction ts arbitrary: out)
  case Nil
  then show ?case by simp
next
  case (Cons t' ts)
  from Cons.prems(2) obtain b' where b': "f t' = Inr b'"
    and run: "write_tiles f ts (WriteArray out b' t') = Inr out'"
    by (auto split: sum.splits)
  have ih: "out_data out' x y =
      (if t \<in> set ts then blk (y - yoff t) (x - xoff t) else out_data (WriteArray out b' t') x y)"
    using Cons.IH [OF _ run] Cons.prems(1,3) by simp
  show ?case
  proof (cases "t' = t")
    case True
    with b' Cons.prems(3) have "b' = blk" by simp
    with ih True assms(1) show ?thesis
      by (simp add: WriteArray_def tile_cells_def)
  next
    case False
    with Cons.prems(1) have "(x, y) \<notin> tile_cells t'" by auto
    then have "out_data (WriteArray out b' t') x y = out_data out x y"
      by (auto simp: WriteArray_def tile_cells_def)
    with ih False show ?thesis by auto
  qed
qed

lemma write_tiles_ok:
  "(\<forall>t \<in> set ts. \<exists>blk. f t = Inr blk) \<Longrightarrow> \<exists>out'. write_tiles f ts out = Inr out'"
  by (induction ts arbitrary: out) auto

lemma write_tiles_fail:
  "t \<in> set ts \<Longrightarrow> f t = Inl e \<Longrightarrow> \<exists>e'. write_tiles f ts out = Inl e'"
  by (induction ts arbitrary: out) (auto split: sum.splits)

lemma sum_rasters_u32_ok:
  "\<forall>p \<in> set ps. readable st t p \<Longrightarrow>
     sum_rasters_u32 st t ps acc =
       Inr (\<lambda>i j. acc i j + sum_list (map (\<lambda>p. contribution_u32 (the (st p)) (xoff t + j) (yoff t + i)) ps))"
proof (induction ps arbitrary: acc)
  case Nil
  then show ?case by simp
next
  case (Cons p ps)
  from Cons.prems obtain ds where ds: "st p = Some ds"
    and fit: "xoff t + xsize t \<le> RasterXSize ds \<and> yoff t + ysize t \<le> RasterYSize ds"
    by (auto simp: readable_def split: option.splits)
  from Cons.prems have rest: "\<forall>p \<in> set ps. readable st t p" by simp
  show ?case
    by (simp add: ds fit ReadAsArray_def Cons.IH [OF rest] contribution_u32_def add.assoc)
qed

lemma sum_rasters_u32_fail:
  "p \<in> set ps \<Longrightarrow> \<not> readable st t p \<Longrightarrow> \<exists>e. sum_rasters_u32 st t ps acc = Inl e"
  by (induction ps arbitrary: acc)
     (auto simp: readable_def ReadAsArray_def split: option.splits)


lemma tile_unique:
  assumes "0 < bs" and "t \<in> set (tiles bs rows cols)" and "t' \<in> set (tiles bs rows cols)"
    and "(x, y) \<in> tile_cells t" and "(x, y) \<in> tile_cells t'"
  shows "t' = t"
proof -
  have "xoff t' = xoff t" "yoff t' = yoff t"
    using assms(4,5) by (simp_all add: tile_cells_iff [OF assms(1,2)] tile_cells_iff [OF assms(1,3)])
  with assms(2,3) show ?thesis
    by (auto simp: tiles_mem)
qed

lemma tile_exists:
  assumes "0 < bs" and "x < cols" and "y < rows"
  shows "\<exists>t \<in> set (tiles bs rows cols). (x, y) \<in> tile_cells t"
proof -
  let ?t = "\<lparr>xoff = (x div bs) * bs, yoff = (y div bs) * bs,
             xsize = min bs (cols - (x div bs) * bs), ysize = min bs (rows - (y div bs) * bs)\<rparr>"
  have "(x div bs) * bs < cols" "(y div bs) * bs < rows"
    using assms(2,3) by (meson div_times_less_eq_dividend le_less_trans)+
  then have mem: "?t \<in> set (tiles bs rows cols)"
    using assms(1) by (auto simp: tiles_mem py_range_mem)
  have "(x, y) \<in> tile_cells ?t"
    using assms(2,3) by (simp add: tile_cells_iff [OF assms(1) mem])
  with mem show ?thesis by blast
qed

lemma write_tiles_grid:
  assumes "0 < bs"
    and "\<forall>t \<in> set (tiles bs rows cols). \<exists>blk. f t = Inr blk \<and>
           (\<forall>i < ysize t. \<forall>j < xsize t. blk i j = h (xoff t + j) (yoff t + i))"
  shows "\<exists>out'. write_tiles f (tiles bs rows cols) out = Inr out' \<and>
           (\<forall>x < cols. \<forall>y < rows. out_data out' x y = h x y)"
proof -
  from assms(2) have "\<forall>t \<in> set (tiles bs rows cols). \<exists>blk. f t = Inr blk" by blast
  then obtain out' where run: "write_tiles f (tiles bs rows cols) out = Inr out'"
    using write_tiles_ok by blast
  have "out_data out' x y = h x y" if "x < cols" "y < rows" for x y
  proof -
    from tile_exists [OF assms(1) that] obtain t
      where t: "t \<in> set (tiles bs rows cols)" and c: "(x, y) \<in> tile_cells t" by blast
    from assms(2) t obtain blk where blk: "f t = Inr blk"
      and val: "\<forall>i < ysize t. \<forall>j < xsize t. blk i j = h (xoff t + j) (yoff t + i)" by blast
    have uniq: "\<forall>t' \<in> set (tiles bs rows cols). (x, y) \<in> tile_cells t' \<longrightarrow> t' = t"
      using tile_unique [OF assms(1) t _ c] by blast
    have "out_data out' x y = blk (y - yoff t) (x - xoff t)"
      using write_tiles_pixel [OF c uniq run blk] t by simp
    moreover have "y - yoff t < ysize t" "x - xoff t < xsize t"
      "xoff t + (x - xoff t) = x" "yoff t + (y - yoff t) = y"
      using c by (auto simp: tile_cells_def)
    ultimately show ?thesis using val by simp
  qed
  with run show ?thesis by blast
qed


lemma tile_inside:
  assumes "0 < bs" and "t \<in> set (tiles bs rows cols)"
  shows "xoff t + xsize t \<le> cols \<and> yoff t + ysize t \<le> rows"
proof -
  from assms obtain x y where xy: "x < cols" "y < rows"
    and t: "t = \<lparr>xoff = x, yoff = y, xsize = min bs (cols - x), ysize = min bs (rows - y)\<rparr>"
    by (auto simp: tiles_mem py_range_mem)
  show ?thesis unfolding t using xy by (auto simp: min_def)
qed

lemma summation_run:
  assumes "map snd (filter (\<lambda>(fname, path). endswith_tif fname) walk) = first # rest"
    and "st first = Some sample"
    and "\<forall>p \<in> set (first # rest). \<exists>ds. st p = Some ds \<and>
           RasterXSize sample \<le> RasterXSize ds \<and> RasterYSize sample \<le> RasterYSize ds"
  shows "\<exists>out. summation_processAlgorithm fb st walk dtype_idx compression_idx = Inr out \<and>
           out_cols out = RasterXSize sample \<and> out_rows out = RasterYSize sample \<and>
           (\<forall>x < RasterXSize sample. \<forall>y < RasterYSize sample.
              out_data out x y =
                cast_block (gdal_dtype_map dtype_idx)
                  (sum_list (map (\<lambda>p. contribution_u32 (the (st p)) x y) (first # rest))))"
proof -
  let ?cols = "RasterXSize sample" and ?rows = "RasterYSize sample"
  let ?dt = "gdal_dtype_map dtype_idx"
  let ?h = "\<lambda>x y. cast_block ?dt (sum_list (map (\<lambda>p. contribution_u32 (the (st p)) x y) (first # rest)))"
  let ?out0 = "Create ?cols ?rows ?dt (creation_options compression_idx) (GeoTransform sample) (Projection sample)"
  have bs: "0 < block_size" by (simp add: block_size_def)
  have blocks: "\<forall>t \<in> set (tiles block_size ?rows ?cols).
      \<exists>blk. summation_block st (first # rest) ?dt t = Inr blk \<and>
        (\<forall>i < ysize t. \<forall>j < xsize t. blk i j = ?h (xoff t + j) (yoff t + i))"
  proof
    fix t assume t: "t \<in> set (tiles block_size ?rows ?cols)"
    have "\<forall>p \<in> set (first # rest). readable st t p"
      using assms(3) tile_inside [OF bs t] by (fastforce simp: readable_def)
    then have "sum_rasters_u32 st t (first # rest) (\<lambda>i j. 0) =
        Inr (\<lambda>i j. 0 + sum_list (map (\<lambda>p. contribution_u32 (the (st p)) (xoff t + j) (yoff t + i)) (first # rest)))"
      by (rule sum_rasters_u32_ok)
    then show "\<exists>blk. summation_block st (first # rest) ?dt t = Inr blk \<and>
        (\<forall>i < ysize t. \<forall>j < xsize t. blk i j = ?h (xoff t + j) (yoff t + i))"
      unfolding summation_block_def by simp
  qed
  from write_tiles_grid [OF bs blocks, of ?out0] obtain out
    where run: "write_tiles (summation_block st (first # rest) ?dt) (tiles block_size ?rows ?cols) ?out0 = Inr out"
      and px: "\<forall>x < ?cols. \<forall>y < ?rows. out_data out x y = ?h x y" by blast
  have "summation_processAlgorithm fb st walk dtype_idx compression_idx = Inr out"
    by (simp add: summation_processAlgorithm_def assms(1,2) run)
  moreover have "out_cols out = ?cols \<and> out_rows out = ?rows"
    using write_tiles_fields [OF run] by (simp add: Create_def)
  ultimately show ?thesis using px by blast
qed

subsection \<open>The season calendar\<close>

lemma lookup_dd_append:
  "lookup_dd (dd_append k v al) k' = (if k' = k then lookup_dd al k @ [v] else lookup_dd al k')"
  by (induction al) (auto simp: lookup_dd_def)

lemma bucket_rasters_lookup:
  "lookup_dd (bucket_rasters name months fm rs mp) (sy, n) =
     lookup_dd mp (sy, n) @
       (if n = name then filter (\<lambda>(y, m, f). m \<in> set months \<and> season_year_of fm y m = sy) rs else [])"
  by (induction rs arbitrary: mp) (auto simp: lookup_dd_append season_year_of_def Let_def)

lemma build_season_map_lookup:
  assumes "build_season_map seasons rs mp = Inr mp'" and "distinct (map fst seasons)"
  shows "lookup_dd mp' (sy, n) =
     lookup_dd mp (sy, n) @
       (case map_of seasons n of None \<Rightarrow> []
        | Some months \<Rightarrow>
            filter (\<lambda>(y, m, f). m \<in> set months \<and> season_year_of (the (py_int (hd months))) y m = sy) rs)"
  using assms
proof (induction seasons arbitrary: mp)
  case Nil
  then show ?case by simp
next
  case (Cons s seasons)
  obtain name months where s: "s = (name, months)" by (cases s)
  from Cons.prems(1) obtain tok rest fm where months: "months = tok # rest" and fm: "py_int tok = Some fm"
    and run: "build_season_map seasons rs (bucket_rasters name months fm rs mp) = Inr mp'"
    unfolding s by (auto split: list.splits option.splits)
  from Cons.prems(2) have d: "distinct (map fst seasons)" and fresh: "map_of seasons name = None"
    unfolding s by (auto simp: map_of_eq_None_iff)
  show ?case
    unfolding Cons.IH [OF run d] bucket_rasters_lookup s
    using fresh fm months by (auto split: option.splits)
qed

text \<open>
  Claim C4. For a season whose first month token is the number firstMonth, an observation
  (year, month) whose month token is in the season's list lies in the bucket of season-year
  \<open>year\<close> when its month is at least firstMonth, and of \<open>year - 1\<close> otherwise, and in
  no other bucket of that season. For DJF = [12, 01, 02], the observation of 2023-01 lies
  in the bucket of 2022 and the observation of 2023-12 in the bucket of 2023.
\<close>

theorem season_year_rollover:
  assumes "distinct (map fst seasons)"
    and "(season_name, tok # rest) \<in> set seasons"
    and "py_int tok = Some firstMonth"
    and "build_season_map seasons rasters [] = Inr season_raster_map"
    and "(y, m, f) \<in> set rasters"
    and "m \<in> set (tok # rest)"
  shows "(y, m, f) \<in> set (lookup_dd season_raster_map (season_year, season_name)) \<longleftrightarrow>
           season_year = (if int_of_digits m \<ge> firstMonth then y else y - 1)"
proof -
  have "map_of seasons season_name = Some (tok # rest)"
    using assms(1,2) by simp
  then have "lookup_dd season_raster_map (season_year, season_name) =
      filter (\<lambda>(y, m, f). m \<in> set (tok # rest) \<and> season_year_of firstMonth y m = season_year) rasters"
    using build_season_map_lookup [OF assms(4,1), of season_year season_name] assms(3)
    by (simp add: lookup_dd_def)
  then show ?thesis
    using assms(5,6) by (auto simp: season_year_of_def)
qed

lemma py_int_12: "py_int ''12'' = Some 12"
  by (simp add: py_int_def is_digit_def int_of_digits_def)

lemma build_DJF: "build_season_map DJF obs_2023 [] = Inr buckets_2023"
  by (simp add: DJF_def obs_2023_def buckets_2023_def py_int_12 int_of_digits_def)

theorem season_year_rollover_witness:
  "distinct (map fst DJF) \<and> (''DJF'', ''12'' # [''01'', ''02'']) \<in> set DJF \<and>
   py_int ''12'' = Some 12 \<and> build_season_map DJF obs_2023 [] = Inr buckets_2023 \<and>
   (2023, ''01'', ''flood_2023-01-10.tif'') \<in> set obs_2023 \<and> ''01'' \<in> set (''12'' # [''01'', ''02'']) \<and>
   (2023, ''01'', ''flood_2023-01-10.tif'') \<in> set (lookup_dd buckets_2023 (2022, ''DJF'')) \<and>
   (2023, ''12'', ''flood_2023-12-10.tif'') \<in> set (lookup_dd buckets_2023 (2023, ''DJF''))"
proof -
  have h: "distinct (map fst DJF)" "(''DJF'', ''12'' # [''01'', ''02'']) \<in> set DJF"
    "(2023, ''01'', ''flood_2023-01-10.tif'') \<in> set obs_2023" "''01'' \<in> set (''12'' # [''01'', ''02''])"
    "(2023, ''12'', ''flood_2023-12-10.tif'') \<in> set obs_2023" "''12'' \<in> set (''12'' # [''01'', ''02''])"
    by (simp_all add: DJF_def obs_2023_def)
  have "(2023, ''01'', ''flood_2023-01-10.tif'') \<in> set (lookup_dd buckets_2023 (2022, ''DJF''))"
    using season_year_rollover [OF h(1,2) py_int_12 build_DJF h(3,4), of 2022]
    by (simp add: int_of_digits_def)
  moreover have "(2023, ''12'', ''flood_2023-12-10.tif'') \<in> set (lookup_dd buckets_2023 (2023, ''DJF''))"
    using season_year_rollover [OF h(1,2) py_int_12 build_DJF h(5,6), of 2023]
    by (simp add: int_of_digits_def)
  ultimately show ?thesis using h py_int_12 build_DJF by simp
qed

subsection \<open>The cast to the output type\<close>

lemma np_clip_nonneg:
  assumes "lo \<le> 0" and "0 \<le> hi"
  shows "np_clip (uint v) lo hi = min hi (uint v)"
proof -
  have "lo \<le> uint v" using assms(1) uint_ge_0 [of v] by linarith
  then show ?thesis by (simp add: np_clip_def min_def max_def)
qed

lemma sint_small:
  assumes "0 \<le> k" and "k < 2 ^ (LENGTH('a::len) - Suc 0)"
  shows "sint (word_of_int k :: 'a word) = k"
proof -
  have "- (2 ^ (LENGTH('a) - Suc 0)) \<le> k"
    using assms(1) by (smt (verit) zero_less_power)
  then show ?thesis
    using assms(2) by (simp add: signed_of_int signed_take_bit_int_eq_self)
qed

lemma cast_Byte: "cast_block GDT_Byte v = min 255 (uint v)"
proof -
  have "uint (word_of_int (min 255 (uint v)) :: 8 word) = min 255 (uint v)"
    by (simp add: uint_word_of_int min_def)
  then show ?thesis by (simp add: cast_block_def np_clip_nonneg)
qed

lemma cast_UInt16: "cast_block GDT_UInt16 v = min 65535 (uint v)"
proof -
  have "uint (word_of_int (min 65535 (uint v)) :: 16 word) = min 65535 (uint v)"
    by (simp add: uint_word_of_int min_def)
  then show ?thesis by (simp add: cast_block_def np_clip_nonneg)
qed

lemma cast_UInt32: "cast_block GDT_UInt32 v = uint v"
proof -
  have "uint v < 4294967296" using uint_lt2p [of v] by simp
  then have "min 4294967295 (uint v) = uint v" by simp
  then show ?thesis by (simp add: cast_block_def np_clip_nonneg)
qed

lemma cast_Int16: "cast_block GDT_Int16 v = min 32767 (uint v)"
proof -
  have "sint (word_of_int (min 32767 (uint v)) :: 16 word) = min 32767 (uint v)"
    by (rule sint_small) (simp_all add: min_def)
  then show ?thesis by (simp add: cast_block_def np_clip_nonneg)
qed

lemma cast_Int32: "cast_block GDT_Int32 v = min 2147483647 (uint v)"
proof -
  have "sint (word_of_int (min 2147483647 (uint v)) :: 32 word) = min 2147483647 (uint v)"
    by (rule sint_small) (simp_all add: min_def)
  then show ?thesis by (simp add: cast_block_def np_clip_nonneg)
qed

lemma cast_Float32_exact: "unat v < 2 ^ 24 \<Longrightarrow> cast_block GDT_Float32 v = uint v"
  by (simp add: cast_block_def astype_float32_def)

lemma bit_length_max: "bit_length 4294967295 = 32"
  by (simp add: bit_length.simps)

lemma cast_Float32_max: "cast_block GDT_Float32 4294967295 = 4294967296"
  by (simp add: cast_block_def astype_float32_def bit_length_max)


lemma endswith_tif_a: "endswith_tif ''a.tif''" and endswith_tif_b: "endswith_tif ''b.tif''"
  by (simp_all add: endswith_tif_def lower_char_def)

lemma walk_ab_rasters:
  "map snd (filter (\<lambda>(fname, path). endswith_tif fname) walk_ab) = [''in/a.tif'', ''in/b.tif'']"
  by (simp add: walk_ab_def endswith_tif_a endswith_tif_b)

text \<open>
  Claim C8. The cast of an accumulated value to an integer output type clamps to the range
  of the type: to [0, 255] for Byte (300 gives 255), [0, 65535] for UInt16,
  [0, 4294967295] for UInt32, [-32768, 32767] for Int16 and [-2147483648, 2147483647] for
  Int32. The float types take the value uncut: Float64 exactly, Float32 exactly below
  \<open>2 ^ 24\<close>, and 4294967295 becomes 4294967296. In a run whose contributors can all be read,
  every output pixel is the cast of the sum accumulated in 32 bits: only the cast narrows.
\<close>

theorem cast_saturates:
  "cast_block GDT_Byte v = max 0 (min 255 (uint v)) \<and>
   cast_block GDT_Byte 300 = 255 \<and>
   cast_block GDT_UInt16 v = max 0 (min 65535 (uint v)) \<and>
   cast_block GDT_UInt32 v = max 0 (min 4294967295 (uint v)) \<and>
   cast_block GDT_Int16 v = max (- 32768) (min 32767 (uint v)) \<and>
   cast_block GDT_Int32 v = max (- 2147483648) (min 2147483647 (uint v)) \<and>
   cast_block GDT_Float64 v = uint v \<and>
   (unat v < 2 ^ 24 \<longrightarrow> cast_block GDT_Float32 v = uint v) \<and>
   cast_block GDT_Float32 4294967295 = 4294967296 \<and>
   (map snd (filter (\<lambda>(fname, path). endswith_tif fname) walk) = first # rest \<and>
    st first = Some sample \<and>
    (\<forall>p \<in> set (first # rest). \<exists>ds. st p = Some ds \<and>
       RasterXSize sample \<le> RasterXSize ds \<and> RasterYSize sample \<le> RasterYSize ds) \<longrightarrow>
    (\<exists>out. summation_processAlgorithm fb st walk dtype_idx compression_idx = Inr out \<and>
       (\<forall>x < RasterXSize sample. \<forall>y < RasterYSize sample.
          out_data out x y =
            cast_block (gdal_dtype_map dtype_idx)
              (sum_list (map (\<lambda>p. contribution_u32 (the (st p)) x y) (first # rest))))))"
proof -
  have nonneg: "0 \<le> uint v" by simp
  have "uint v < 4294967296" using uint_lt2p [of v] by simp
  then have u32: "min 4294967295 (uint v) = uint v" by simp
  have c1: "cast_block GDT_Byte v = max 0 (min 255 (uint v))"
    using nonneg by (simp add: cast_Byte)
  have c2: "cast_block GDT_Byte 300 = 255" by (simp add: cast_Byte)
  have c3: "cast_block GDT_UInt16 v = max 0 (min 65535 (uint v))"
    using nonneg by (simp add: cast_UInt16)
  have c4: "cast_block GDT_UInt32 v = max 0 (min 4294967295 (uint v))"
    using nonneg u32 by (simp add: cast_UInt32)
  have "- 32768 \<le> min 32767 (uint v)" using uint_ge_0 [of v] by linarith
  then have c5: "cast_block GDT_Int16 v = max (- 32768) (min 32767 (uint v))"
    by (simp add: cast_Int16 max_def)
  have "- 2147483648 \<le> min 2147483647 (uint v)" using uint_ge_0 [of v] by linarith
  then have c6: "cast_block GDT_Int32 v = max (- 2147483648) (min 2147483647 (uint v))"
    by (simp add: cast_Int32 max_def)
  have c7: "cast_block GDT_Float64 v = uint v" by (simp add: cast_block_def)
  have c8: "unat v < 2 ^ 24 \<longrightarrow> cast_block GDT_Float32 v = uint v"
    using cast_Float32_exact by blast
  have c9: "map snd (filter (\<lambda>(fname, path). endswith_tif fname) walk) = first # rest \<and>
    st first = Some sample \<and>
    (\<forall>p \<in> set (first # rest). \<exists>ds. st p = Some ds \<and>
       RasterXSize sample \<le> RasterXSize ds \<and> RasterYSize sample \<le> RasterYSize ds) \<longrightarrow>
    (\<exists>out. summation_processAlgorithm fb st walk dtype_idx compression_idx = Inr out \<and>
       (\<forall>x < RasterXSize sample. \<forall>y < RasterYSize sample.
          out_data out x y =
            cast_block (gdal_dtype_map dtype_idx)
              (sum_list (map (\<lambda>p. contribution_u32 (the (st p)) x y) (first # rest)))))"
  proof (intro impI, elim conjE)
    assume h: "map snd (filter (\<lambda>(fname, path). endswith_tif fname) walk) = first # rest"
      "st first = Some sample"
      "\<forall>p \<in> set (first # rest). \<exists>ds. st p = Some ds \<and>
         RasterXSize sample \<le> RasterXSize ds \<and> RasterYSize sample \<le> RasterYSize ds"
    from summation_run [OF h, of fb dtype_idx compression_idx]
    show "\<exists>out. summation_processAlgorithm fb st walk dtype_idx compression_idx = Inr out \<and>
       (\<forall>x < RasterXSize sample. \<forall>y < RasterYSize sample.
          out_data out x y =
            cast_block (gdal_dtype_map dtype_idx)
              (sum_list (map (\<lambda>p. contribution_u32 (the (st p)) x y) (first # rest))))"
      by blast
  qed
  show ?thesis
    by (intro conjI c1 c2 c3 c4 c5 c6 c7 c8 c9 cast_Float32_max)
qed

theorem cast_saturates_witness:
  "unat (300 :: 32 word) < 2 ^ 24 \<and> cast_block GDT_Float32 300 = 300 \<and>
   map snd (filter (\<lambda>(fname, path). endswith_tif fname) walk_ab) = ''in/a.tif'' # [''in/b.tif''] \<and>
   store_200 ''in/a.tif'' = Some (raster_1x1 200 None) \<and>
   store_200 ''in/b.tif'' = Some (raster_1x1 200 None) \<and>
   RasterXSize (raster_1x1 200 None) \<le> RasterXSize (raster_1x1 200 None) \<and>
   RasterYSize (raster_1x1 200 None) \<le> RasterYSize (raster_1x1 200 None) \<and>
   (\<exists>out. summation_processAlgorithm no_cancel store_200 walk_ab 0 0 = Inr out \<and> out_data out 0 0 = 255)"
proof -
  have h1: "unat (300 :: 32 word) < 2 ^ 24" by simp
  have h2: "store_200 ''in/a.tif'' = Some (raster_1x1 200 None)" by (simp add: store_200_def)
  have h3: "\<forall>p \<in> set (''in/a.tif'' # [''in/b.tif'']). \<exists>ds. store_200 p = Some ds \<and>
       RasterXSize (raster_1x1 200 None) \<le> RasterXSize ds \<and>
       RasterYSize (raster_1x1 200 None) \<le> RasterYSize ds"
    by (simp add: store_200_def)
  note inst = cast_saturates [of 300 walk_ab "''in/a.tif''" "[''in/b.tif'']" store_200
      "raster_1x1 200 None" no_cancel 0 0]
  from inst h1 have f32: "cast_block GDT_Float32 300 = 300" by simp
  from inst walk_ab_rasters h2 h3 obtain out
    where run: "summation_processAlgorithm no_cancel store_200 walk_ab 0 0 = Inr out"
      and px: "\<forall>x < RasterXSize (raster_1x1 200 None). \<forall>y < RasterYSize (raster_1x1 200 None).
          out_data out x y =
            cast_block (gdal_dtype_map 0)
              (sum_list (map (\<lambda>p. contribution_u32 (the (store_200 p)) x y) (''in/a.tif'' # [''in/b.tif''])))"
    by blast
  have "out_data out 0 0 = cast_block GDT_Byte 400"
    using px by (simp add: raster_1x1_def store_200_def contribution_u32_def nodata_u32_def gdal_dtype_map_def)
  also have "\<dots> = 255" using cast_saturates [of 400, THEN conjunct1] by simp
  finally have "out_data out 0 0 = 255" .
  moreover have "store_200 ''in/b.tif'' = Some (raster_1x1 200 None)" by (simp add: store_200_def)
  ultimately show ?thesis using run h1 f32 walk_ab_rasters h2 by simp
qed

subsection \<open>Nodata, empty input and cancellation in the flat summation\<close>

lemma walk_a_rasters:
  "map snd (filter (\<lambda>(fname, path). endswith_tif fname) walk_a) = [''in/a.tif'']"
  by (simp add: walk_a_def endswith_tif_a)

lemma nodata_u32_in_range:
  assumes "0 \<le> nd" and "nd < 2 ^ 32"
  shows "nodata_u32 (Some nd) nd = 0"
  using assms by (simp add: nodata_u32_def uint_word_of_int)

text \<open>
  Claim C1, at the input where the flat summation departs from it: a pixel of an Int16
  raster that holds the declared nodata value -9999 adds 4294957297 to the accumulator,
  not zero, and the output pixel of the run holds that number. The same pixel adds zero in
  the sums of the calendar algorithms.
\<close>

theorem nodata_negative_flat:
  "contribution_u32 (raster_1x1 (- 9999) (Some (- 9999))) 0 0 = 4294957297 \<and>
   (\<exists>out. summation_processAlgorithm no_cancel store_neg walk_a 6 0 = Inr out \<and>
          out_data out 0 0 = 4294957297) \<and>
   nodata_f32 (Some (- 9999)) (- 9999) = 0"
proof -
  have c: "contribution_u32 (raster_1x1 (- 9999) (Some (- 9999))) 0 0 = 4294957297"
    by (simp add: contribution_u32_def raster_1x1_def nodata_u32_def)
  have s: "store_neg ''in/a.tif'' = Some (raster_1x1 (- 9999) (Some (- 9999)))"
    by (simp add: store_neg_def)
  have ok: "\<forall>p \<in> set (''in/a.tif'' # []). \<exists>ds. store_neg p = Some ds \<and>
      RasterXSize (raster_1x1 (- 9999) (Some (- 9999))) \<le> RasterXSize ds \<and>
      RasterYSize (raster_1x1 (- 9999) (Some (- 9999))) \<le> RasterYSize ds"
    by (simp add: store_neg_def)
  from summation_run [OF walk_a_rasters s ok, of no_cancel 6 0] obtain out
    where run: "summation_processAlgorithm no_cancel store_neg walk_a 6 0 = Inr out"
      and px: "\<forall>x < RasterXSize (raster_1x1 (- 9999) (Some (- 9999))).
          \<forall>y < RasterYSize (raster_1x1 (- 9999) (Some (- 9999))).
            out_data out x y =
              cast_block (gdal_dtype_map 6)
                (sum_list (map (\<lambda>p. contribution_u32 (the (store_neg p)) x y) [''in/a.tif'']))"
    by blast
  have "out_data out 0 0 = cast_block GDT_Float64 (contribution_u32 (raster_1x1 (- 9999) (Some (- 9999))) 0 0)"
    using px by (simp add: raster_1x1_def gdal_dtype_map_def s)
  then have "out_data out 0 0 = 4294957297"
    unfolding c by (simp add: cast_block_def)
  with run c show ?thesis by (auto simp: nodata_f32_def)
qed

text \<open>
  Claim C6, at the input where the calendar algorithms depart from it: with no raster
  under the input folder the flat summation raises, while the monthly and the seasonal
  run return normally, with no output and the message that all maps were created.
\<close>

theorem no_input_found:
  "summation_processAlgorithm fb st [] dtype_idx compression_idx = Inl NoTiffFound \<and>
   monthly_processAlgorithm fb st [] prefix = Inr ([], [AllCreated]) \<and>
   seasonal_processAlgorithm fb st [] DJF = Inr ([], [AllCreated])"
  by (simp add: summation_processAlgorithm_def monthly_processAlgorithm_def
        seasonal_processAlgorithm_def DJF_def py_int_12)

subsection \<open>The sums of the calendar algorithms\<close>

lemma sum_rasters_f32_ok:
  "\<forall>p \<in> set ps. readable st t p \<Longrightarrow>
     sum_rasters_f32 st t ps acc =
       Inr (\<lambda>i j. acc i j + sum_list (map (\<lambda>p. contribution_f32 (the (st p)) (xoff t + j) (yoff t + i)) ps))"
proof (induction ps arbitrary: acc)
  case Nil
  then show ?case by simp
next
  case (Cons p ps)
  from Cons.prems obtain ds where ds: "st p = Some ds"
    and fit: "xoff t + xsize t \<le> RasterXSize ds \<and> yoff t + ysize t \<le> RasterYSize ds"
    by (auto simp: readable_def split: option.splits)
  from Cons.prems have rest: "\<forall>p \<in> set ps. readable st t p" by simp
  show ?case
    by (simp add: ds fit ReadAsArray_def Cons.IH [OF rest] contribution_f32_def add.assoc)
qed

lemma sum_rasters_f32_fail:
  "p \<in> set ps \<Longrightarrow> \<not> readable st t p \<Longrightarrow> \<exists>e. sum_rasters_f32 st t ps acc = Inl e"
  by (induction ps arbitrary: acc)
     (auto simp: readable_def ReadAsArray_def split: option.splits)

lemma sum_final_files_present:
  "sum_final_files st t ff acc = sum_rasters_f32 st t (present_files ff) acc"
proof (induction ff arbitrary: acc)
  case Nil
  then show ?case by (simp add: present_files_def)
next
  case (Cons f ff)
  show ?case
  proof (cases "f \<noteq> None \<and> f \<noteq> Some []")
    case True
    then show ?thesis
      using Cons.IH by (auto simp: present_files_def split: option.splits)
  next
    case False
    then have "sum_final_files st t (f # ff) acc = sum_final_files st t ff acc"
      by auto
    with False show ?thesis
      using Cons.IH by (auto simp: present_files_def)
  qed
qed

lemma last_tile:
  assumes "0 < bs" and "0 < cols" and "0 < rows"
  shows "\<exists>t \<in> set (tiles bs rows cols). xoff t + xsize t = cols \<and> yoff t + ysize t = rows"
proof -
  from tile_exists [OF assms(1), of "cols - 1" cols "rows - 1" rows] assms(2,3)
  obtain t where t: "t \<in> set (tiles bs rows cols)" and c: "(cols - 1, rows - 1) \<in> tile_cells t"
    by auto
  from tile_inside [OF assms(1) t] c assms(2,3)
  have "xoff t + xsize t = cols \<and> yoff t + ysize t = rows"
    by (auto simp: tile_cells_def)
  with t show ?thesis by blast
qed

lemma fits_readable:
  assumes "0 < bs" and "t \<in> set (tiles bs (RasterYSize ref) (RasterXSize ref))" and "fits st ref p"
  shows "readable st t p"
  using assms(3) tile_inside [OF assms(1,2)]
  by (auto simp: fits_def readable_def split: option.splits)

lemma not_fits_unreadable:
  assumes "xoff t + xsize t = RasterXSize ref" and "yoff t + ysize t = RasterYSize ref"
    and "\<not> fits st ref p"
  shows "\<not> readable st t p"
  using assms by (auto simp: fits_def readable_def split: option.splits)

subsection \<open>One unit of each algorithm\<close>

lemma write_tiles_last_fails:
  assumes "0 < bs" and "0 < cols" and "0 < rows"
    and "\<And>t. t \<in> set (tiles bs rows cols) \<Longrightarrow> xoff t + xsize t = cols \<Longrightarrow>
           yoff t + ysize t = rows \<Longrightarrow> \<exists>e. f t = Inl e"
  shows "\<exists>e. write_tiles f (tiles bs rows cols) out = Inl e"
proof -
  from last_tile [OF assms(1,2,3)] obtain t where t: "t \<in> set (tiles bs rows cols)"
    and e: "xoff t + xsize t = cols" "yoff t + ysize t = rows" by blast
  from assms(4) [OF t e] obtain err where "f t = Inl err" by blast
  with t show ?thesis by (rule write_tiles_fail)
qed

lemma f32_unit_ok:
  assumes "\<forall>p \<in> set ps. fits st ref p"
  shows "\<exists>out. write_tiles (\<lambda>t. sum_rasters_f32 st t ps (\<lambda>i j. 0))
            (tiles block_size (RasterYSize ref) (RasterXSize ref)) out0 = Inr out \<and>
           (\<forall>x < RasterXSize ref. \<forall>y < RasterYSize ref.
              out_data out x y = sum_list (map (\<lambda>p. contribution_f32 (the (st p)) x y) ps))"
proof -
  have bs: "0 < block_size" by (simp add: block_size_def)
  have "\<forall>t \<in> set (tiles block_size (RasterYSize ref) (RasterXSize ref)).
      \<exists>blk. sum_rasters_f32 st t ps (\<lambda>i j. 0) = Inr blk \<and>
        (\<forall>i < ysize t. \<forall>j < xsize t.
           blk i j = sum_list (map (\<lambda>p. contribution_f32 (the (st p)) (xoff t + j) (yoff t + i)) ps))"
  proof
    fix t assume t: "t \<in> set (tiles block_size (RasterYSize ref) (RasterXSize ref))"
    have "\<forall>p \<in> set ps. readable st t p"
      using assms fits_readable [OF bs t] by blast
    then have "sum_rasters_f32 st t ps (\<lambda>i j. 0) =
        Inr (\<lambda>i j. 0 + sum_list (map (\<lambda>p. contribution_f32 (the (st p)) (xoff t + j) (yoff t + i)) ps))"
      by (rule sum_rasters_f32_ok)
    then show "\<exists>blk. sum_rasters_f32 st t ps (\<lambda>i j. 0) = Inr blk \<and>
        (\<forall>i < ysize t. \<forall>j < xsize t.
           blk i j = sum_list (map (\<lambda>p. contribution_f32 (the (st p)) (xoff t + j) (yoff t + i)) ps))"
      by simp
  qed
  from write_tiles_grid [OF bs this, of out0] show ?thesis by blast
qed

lemma f32_unit_fail:
  assumes "p \<in> set ps" and "\<not> fits st ref p" and "0 < RasterXSize ref" and "0 < RasterYSize ref"
  shows "\<exists>e. write_tiles (\<lambda>t. sum_rasters_f32 st t ps (\<lambda>i j. 0))
            (tiles block_size (RasterYSize ref) (RasterXSize ref)) out0 = Inl e"
proof (rule write_tiles_last_fails)
  show "0 < block_size" by (simp add: block_size_def)
  show "0 < RasterXSize ref" "0 < RasterYSize ref" by fact+
  fix t :: tile
  assume "xoff t + xsize t = RasterXSize ref" "yoff t + ysize t = RasterYSize ref"
  then have "\<not> readable st t p" using assms(2) by (rule not_fits_unreadable)
  with assms(1) show "\<exists>e. sum_rasters_f32 st t ps (\<lambda>i j. 0) = Inl e"
    by (rule sum_rasters_f32_fail)
qed

lemma monthly_unit_ok:
  assumes "st (hd rasters) = Some ref" and "\<forall>p \<in> set rasters. fits st ref p"
  shows "\<exists>out. monthly_unit st rasters = Inr out \<and>
           (\<forall>x < RasterXSize ref. \<forall>y < RasterYSize ref.
              out_data out x y = sum_list (map (\<lambda>p. contribution_f32 (the (st p)) x y) rasters))"
  using f32_unit_ok [OF assms(2), of "Create (RasterXSize ref) (RasterYSize ref) GDT_Float32 [''COMPRESS=LZW''] (GeoTransform ref) (Projection ref)"]
  by (simp add: monthly_unit_def assms(1) Let_def)

lemma monthly_unit_fail:
  assumes "st (hd rasters) = Some ref" and "p \<in> set rasters" and "\<not> fits st ref p"
    and "0 < RasterXSize ref" and "0 < RasterYSize ref"
  shows "\<exists>e. monthly_unit st rasters = Inl e"
  using f32_unit_fail [OF assms(2,3,4,5), of "Create (RasterXSize ref) (RasterYSize ref) GDT_Float32 [''COMPRESS=LZW''] (GeoTransform ref) (Projection ref)"]
  by (simp add: monthly_unit_def assms(1) Let_def)

lemma seasonal_reference:
  "find (\<lambda>f. f \<noteq> None \<and> f \<noteq> Some []) ff = (case present_files ff of [] \<Rightarrow> None | p # _ \<Rightarrow> Some (Some p))"
  by (induction ff) (auto simp: present_files_def)

lemma seasonal_unit_ok:
  assumes "present_files (final_files season_months month_files) = first # rest"
    and "st first = Some ref" and "\<forall>p \<in> set (first # rest). fits st ref p"
  shows "\<exists>out. seasonal_unit st season_months month_files = Inr out \<and>
           (\<forall>x < RasterXSize ref. \<forall>y < RasterYSize ref.
              out_data out x y =
                sum_list (map (\<lambda>p. contribution_f32 (the (st p)) x y) (first # rest)))"
  unfolding seasonal_unit_def Let_def seasonal_reference sum_final_files_present assms(1)
  using f32_unit_ok [OF assms(3), of "Create (RasterXSize ref) (RasterYSize ref) GDT_Float32 [''COMPRESS=LZW''] (GeoTransform ref) (Projection ref)"]
  by (simp add: assms(2) del: sum_rasters_f32.simps)

lemma seasonal_unit_fail:
  assumes "present_files (final_files season_months month_files) = first # rest"
    and "st first = Some ref" and "p \<in> set (first # rest)" and "\<not> fits st ref p"
    and "0 < RasterXSize ref" and "0 < RasterYSize ref"
  shows "\<exists>e. seasonal_unit st season_months month_files = Inl e"
  unfolding seasonal_unit_def Let_def seasonal_reference sum_final_files_present assms(1)
  using f32_unit_fail [OF assms(3,4,5,6), of "Create (RasterXSize ref) (RasterYSize ref) GDT_Float32 [''COMPRESS=LZW''] (GeoTransform ref) (Projection ref)"]
  by (simp add: assms(2) del: sum_rasters_f32.simps)

lemma summation_fail:
  assumes "map snd (filter (\<lambda>(fname, path). endswith_tif fname) walk) = first # rest"
    and "st first = Some ref" and "p \<in> set (first # rest)" and "\<not> fits st ref p"
    and "0 < RasterXSize ref" and "0 < RasterYSize ref"
  shows "\<exists>e. summation_processAlgorithm fb st walk dtype_idx compression_idx = Inl e"
proof -
  have "\<exists>e. write_tiles (summation_block st (first # rest) (gdal_dtype_map dtype_idx))
            (tiles block_size (RasterYSize ref) (RasterXSize ref)) out0 = Inl e" for out0
  proof (rule write_tiles_last_fails)
    show "0 < block_size" by (simp add: block_size_def)
    show "0 < RasterXSize ref" "0 < RasterYSize ref" by fact+
    fix t :: tile
    assume "xoff t + xsize t = RasterXSize ref" "yoff t + ysize t = RasterYSize ref"
    then have "\<not> readable st t p" using assms(4) by (rule not_fits_unreadable)
    with assms(3) obtain e where "sum_rasters_u32 st t (first # rest) (\<lambda>i j. 0) = Inl e"
      using sum_rasters_u32_fail by blast
    then show "\<exists>e. summation_block st (first # rest) (gdal_dtype_map dtype_idx) t = Inl e"
      by (simp add: summation_block_def)
  qed
  then show ?thesis
    by (simp add: summation_processAlgorithm_def assms(1,2) Let_def)
qed

subsection \<open>Contributors of another shape\<close>

lemma final_files_ab: "present_files (final_files [''01'', ''02''] bucket_ab) = [''in/a.tif'', ''in/b.tif'']"
  by (simp add: final_files_def bucket_ab_def present_files_def)

lemma fits_mismatch:
  "\<forall>p \<in> set (''in/a.tif'' # [''in/b.tif'']). fits store_mismatch (raster_1x1 1 None) p"
  by (simp add: fits_def store_mismatch_def raster_1x1_def big_raster_def)

lemma store_mismatch_a: "store_mismatch ''in/a.tif'' = Some (raster_1x1 1 None)"
  by (simp add: store_mismatch_def)

lemma contributions_mismatch:
  "sum_list (map (\<lambda>p. contribution_f32 (the (store_mismatch p)) 0 0) [''in/a.tif'', ''in/b.tif'']) = 3"
  by (simp add: store_mismatch_def contribution_f32_def nodata_f32_def raster_1x1_def big_raster_def)

text \<open>
  Claim C2 fails as stated: the second raster of this folder has another width, height,
  geotransform and projection than the reference raster, and both the flat summation and
  a monthly unit finish without error, with an output computed from the two rasters.
\<close>

theorem mismatch_tolerated:
  "RasterXSize big_raster \<noteq> RasterXSize (raster_1x1 1 None) \<and>
   RasterYSize big_raster \<noteq> RasterYSize (raster_1x1 1 None) \<and>
   GeoTransform big_raster \<noteq> GeoTransform (raster_1x1 1 None) \<and>
   Projection big_raster \<noteq> Projection (raster_1x1 1 None) \<and>
   (\<exists>out. summation_processAlgorithm no_cancel store_mismatch walk_ab 6 0 = Inr out \<and>
          out_data out 0 0 = 3) \<and>
   (\<exists>out. monthly_unit store_mismatch [''in/a.tif'', ''in/b.tif''] = Inr out \<and>
          out_data out 0 0 = 3)"
proof -
  have ok: "\<forall>p \<in> set (''in/a.tif'' # [''in/b.tif'']). \<exists>ds. store_mismatch p = Some ds \<and>
      RasterXSize (raster_1x1 1 None) \<le> RasterXSize ds \<and>
      RasterYSize (raster_1x1 1 None) \<le> RasterYSize ds"
    by (simp add: store_mismatch_def raster_1x1_def big_raster_def)
  from summation_run [where st = store_mismatch and fb = no_cancel and dtype_idx = 6
      and compression_idx = 0, OF walk_ab_rasters store_mismatch_a ok] obtain out
    where run: "summation_processAlgorithm no_cancel store_mismatch walk_ab 6 0 = Inr out"
      and px: "\<forall>x < RasterXSize (raster_1x1 1 None). \<forall>y < RasterYSize (raster_1x1 1 None).
          out_data out x y =
            cast_block (gdal_dtype_map 6)
              (sum_list (map (\<lambda>p. contribution_u32 (the (store_mismatch p)) x y)
                 (''in/a.tif'' # [''in/b.tif''])))"
    by blast
  have "out_data out 0 0 = 3"
    using px by (simp add: raster_1x1_def big_raster_def store_mismatch_def gdal_dtype_map_def
        contribution_u32_def nodata_u32_def cast_block_def)
  with run have flat: "\<exists>out. summation_processAlgorithm no_cancel store_mismatch walk_ab 6 0 = Inr out \<and>
          out_data out 0 0 = 3" by blast
  have "store_mismatch (hd [''in/a.tif'', ''in/b.tif'']) = Some (raster_1x1 1 None)"
    by (simp add: store_mismatch_a)
  from monthly_unit_ok [where st = store_mismatch, OF this] fits_mismatch
  obtain out' where "monthly_unit store_mismatch [''in/a.tif'', ''in/b.tif''] = Inr out'"
    and "\<forall>x < RasterXSize (raster_1x1 1 None). \<forall>y < RasterYSize (raster_1x1 1 None).
          out_data out' x y =
            sum_list (map (\<lambda>p. contribution_f32 (the (store_mismatch p)) x y) [''in/a.tif'', ''in/b.tif''])"
    by auto
  then have monthly: "\<exists>out. monthly_unit store_mismatch [''in/a.tif'', ''in/b.tif''] = Inr out \<and>
          out_data out 0 0 = 3"
    using contributions_mismatch by (auto simp: raster_1x1_def)
  show ?thesis
    using flat monthly by (simp add: big_raster_def raster_1x1_def)
qed

text \<open>
  Claim C2 as amended. No algorithm compares a contributor with the reference raster. A
  unit whose reference raster is not empty finishes without error exactly when every
  contributor opens and is at least as wide and as high as the reference raster, so that
  every window of the reference grid can be read from it; its geotransform and projection
  play no part, and a contributor larger than the reference raster is accepted.
\<close>

theorem shape_checked_only_by_reading:
  assumes "0 < RasterXSize ref" and "0 < RasterYSize ref" and "st first = Some ref"
  shows "(map snd (filter (\<lambda>(fname, path). endswith_tif fname) walk) = first # rest \<longrightarrow>
            ((\<exists>out. summation_processAlgorithm fb st walk dtype_idx compression_idx = Inr out) \<longleftrightarrow>
             (\<forall>p \<in> set (first # rest). fits st ref p))) \<and>
         ((\<exists>out. monthly_unit st (first # rest) = Inr out) \<longleftrightarrow>
             (\<forall>p \<in> set (first # rest). fits st ref p)) \<and>
         (present_files (final_files season_months month_files) = first # rest \<longrightarrow>
            ((\<exists>out. seasonal_unit st season_months month_files = Inr out) \<longleftrightarrow>
             (\<forall>p \<in> set (first # rest). fits st ref p)))"
proof (intro conjI impI)
  assume w: "map snd (filter (\<lambda>(fname, path). endswith_tif fname) walk) = first # rest"
  show "(\<exists>out. summation_processAlgorithm fb st walk dtype_idx compression_idx = Inr out) \<longleftrightarrow>
        (\<forall>p \<in> set (first # rest). fits st ref p)"
  proof
    assume ex: "\<exists>out. summation_processAlgorithm fb st walk dtype_idx compression_idx = Inr out"
    show "\<forall>p \<in> set (first # rest). fits st ref p"
    proof (rule ccontr)
      assume "\<not> (\<forall>p \<in> set (first # rest). fits st ref p)"
      then obtain p where p: "p \<in> set (first # rest)" "\<not> fits st ref p" by blast
      from summation_fail [where st = st and fb = fb and dtype_idx = dtype_idx
          and compression_idx = compression_idx, OF w assms(3) p assms(1,2)] ex
      show False by auto
    qed
  next
    assume "\<forall>p \<in> set (first # rest). fits st ref p"
    then have "\<forall>p \<in> set (first # rest). \<exists>ds. st p = Some ds \<and>
        RasterXSize ref \<le> RasterXSize ds \<and> RasterYSize ref \<le> RasterYSize ds"
      by (auto simp: fits_def split: option.splits)
    from summation_run [where st = st and fb = fb, OF w assms(3) this]
    show "\<exists>out. summation_processAlgorithm fb st walk dtype_idx compression_idx = Inr out"
      by blast
  qed
next
  have hd: "st (hd (first # rest)) = Some ref" using assms(3) by simp
  show "(\<exists>out. monthly_unit st (first # rest) = Inr out) \<longleftrightarrow>
        (\<forall>p \<in> set (first # rest). fits st ref p)"
  proof
    assume ex: "\<exists>out. monthly_unit st (first # rest) = Inr out"
    show "\<forall>p \<in> set (first # rest). fits st ref p"
    proof (rule ccontr)
      assume "\<not> (\<forall>p \<in> set (first # rest). fits st ref p)"
      then obtain p where p: "p \<in> set (first # rest)" "\<not> fits st ref p" by blast
      from monthly_unit_fail [where st = st, OF hd p assms(1,2)] ex
      show False by auto
    qed
  next
    assume "\<forall>p \<in> set (first # rest). fits st ref p"
    from monthly_unit_ok [where st = st, OF hd this]
    show "\<exists>out. monthly_unit st (first # rest) = Inr out" by blast
  qed
next
  assume f: "present_files (final_files season_months month_files) = first # rest"
  show "(\<exists>out. seasonal_unit st season_months month_files = Inr out) \<longleftrightarrow>
        (\<forall>p \<in> set (first # rest). fits st ref p)"
  proof
    assume ex: "\<exists>out. seasonal_unit st season_months month_files = Inr out"
    show "\<forall>p \<in> set (first # rest). fits st ref p"
    proof (rule ccontr)
      assume "\<not> (\<forall>p \<in> set (first # rest). fits st ref p)"
      then obtain p where p: "p \<in> set (first # rest)" "\<not> fits st ref p" by blast
      from seasonal_unit_fail [where st = st, OF f assms(3) p assms(1,2)] ex
      show False by auto
    qed
  next
    assume "\<forall>p \<in> set (first # rest). fits st ref p"
    from seasonal_unit_ok [where st = st, OF f assms(3) this]
    show "\<exists>out. seasonal_unit st season_months month_files = Inr out" by blast
  qed
qed

theorem shape_checked_only_by_reading_witness:
  "0 < RasterXSize (raster_1x1 1 None) \<and> 0 < RasterYSize (raster_1x1 1 None) \<and>
   store_mismatch ''in/a.tif'' = Some (raster_1x1 1 None) \<and>
   map snd (filter (\<lambda>(fname, path). endswith_tif fname) walk_ab) = ''in/a.tif'' # [''in/b.tif''] \<and>
   present_files (final_files [''01'', ''02''] bucket_ab) = ''in/a.tif'' # [''in/b.tif''] \<and>
   fits store_mismatch (raster_1x1 1 None) ''in/a.tif'' \<and>
   fits store_mismatch (raster_1x1 1 None) ''in/b.tif'' \<and>
   (\<exists>out. summation_processAlgorithm no_cancel store_mismatch walk_ab 6 0 = Inr out) \<and>
   (\<exists>out. monthly_unit store_mismatch (''in/a.tif'' # [''in/b.tif'']) = Inr out) \<and>
   (\<exists>out. seasonal_unit store_mismatch [''01'', ''02''] bucket_ab = Inr out)"
proof -
  have h: "0 < RasterXSize (raster_1x1 1 None)" "0 < RasterYSize (raster_1x1 1 None)"
    by (simp_all add: raster_1x1_def)
  note inst = shape_checked_only_by_reading [where st = store_mismatch and walk = walk_ab
      and rest = "[''in/b.tif'']" and fb = no_cancel and dtype_idx = 6 and compression_idx = 0
      and season_months = "[''01'', ''02'']" and month_files = bucket_ab, OF h store_mismatch_a]
  from inst walk_ab_rasters final_files_ab fits_mismatch
  have "(\<exists>out. summation_processAlgorithm no_cancel store_mismatch walk_ab 6 0 = Inr out) \<and>
   (\<exists>out. monthly_unit store_mismatch (''in/a.tif'' # [''in/b.tif'']) = Inr out) \<and>
   (\<exists>out. seasonal_unit store_mismatch [''01'', ''02''] bucket_ab = Inr out)"
    by blast
  with h store_mismatch_a walk_ab_rasters final_files_ab fits_mismatch show ?thesis
    by simp
qed

subsection \<open>Cancellation\<close>

text \<open>
  Claim C3 fails as stated: the raster has three tile rows and the feedback reports
  cancellation as soon as one tile row is written, yet the run returns normally and the
  pixels of the second and the third tile row hold the sum, not the initial zero.
\<close>

theorem cancellation_ignored:
  "isCanceled cancel_after_first_row 1 \<and>
   length (py_range (RasterYSize column_1025) block_size) = 3 \<and>
   (\<exists>out. summation_processAlgorithm cancel_after_first_row store_column walk_a 6 0 = Inr out \<and>
          out_data out 0 0 = 1 \<and> out_data out 0 512 = 1 \<and> out_data out 0 1024 = 1)"
proof -
  have s: "store_column ''in/a.tif'' = Some column_1025" by (simp add: store_column_def)
  have ok: "\<forall>p \<in> set (''in/a.tif'' # []). \<exists>ds. store_column p = Some ds \<and>
      RasterXSize column_1025 \<le> RasterXSize ds \<and> RasterYSize column_1025 \<le> RasterYSize ds"
    by (simp add: store_column_def)
  from summation_run [where st = store_column and fb = cancel_after_first_row and dtype_idx = 6
      and compression_idx = 0, OF walk_a_rasters s ok] obtain out
    where run: "summation_processAlgorithm cancel_after_first_row store_column walk_a 6 0 = Inr out"
      and px: "\<forall>x < RasterXSize column_1025. \<forall>y < RasterYSize column_1025.
          out_data out x y =
            cast_block (gdal_dtype_map 6)
              (sum_list (map (\<lambda>p. contribution_u32 (the (store_column p)) x y) [''in/a.tif'']))"
    by blast
  have "out_data out 0 y = 1" if "y < 1025" for y
    using px that by (simp add: column_1025_def store_column_def gdal_dtype_map_def
        contribution_u32_def nodata_u32_def cast_block_def)
  then have "out_data out 0 0 = 1 \<and> out_data out 0 512 = 1 \<and> out_data out 0 1024 = 1"
    by simp
  moreover have "length (py_range (RasterYSize column_1025) block_size) = 3"
    by (simp add: py_range_def column_1025_def block_size_def)
  moreover have "isCanceled cancel_after_first_row 1"
    by (simp add: cancel_after_first_row_def)
  ultimately show ?thesis using run by blast
qed

text \<open>
  Claim C3 as amended. None of the three algorithms polls the cancellation signal: a run
  gives the same result, error or completed output, under any two feedback objects, so a
  signalled cancellation leaves no tile unprocessed and the run reports completion.
\<close>

theorem cancellation_never_polled:
  "summation_processAlgorithm fb st walk dtype_idx compression_idx =
     summation_processAlgorithm fb' st walk dtype_idx compression_idx \<and>
   monthly_processAlgorithm fb st walk prefix = monthly_processAlgorithm fb' st walk prefix \<and>
   seasonal_processAlgorithm fb st walk seasons = seasonal_processAlgorithm fb' st walk seasons"
  by (simp add: summation_processAlgorithm_def monthly_processAlgorithm_def
        seasonal_processAlgorithm_def)

subsection \<open>Gap filling\<close>










subsection \<open>The monthly classifier\<close>

lemma date_at_append:
  assumes "length d = 10"
  shows "date_at (d @ suf) \<longleftrightarrow> date_shaped d"
  using assms by (simp add: date_at_def date_shaped_def nth_append)

lemma date_at_nonempty: "date_at s \<Longrightarrow> s \<noteq> []"
  by (auto simp: date_at_def)

lemma re_search_date_first:
  assumes "date_at rest"
    and "\<forall>pre' rest'. pre @ rest = pre' @ rest' \<and> length pre' < length pre \<longrightarrow> \<not> date_at rest'"
  shows "re_search_date (pre @ rest) = Some (take 4 rest, take 2 (drop 5 rest))"
  using assms(2)
proof (induction pre)
  case Nil
  from date_at_nonempty [OF assms(1)] obtain c cs where "rest = c # cs" by (cases rest) auto
  with assms(1) show ?case by simp
next
  case (Cons p ps)
  have "\<not> date_at ((p # ps) @ rest)"
    using Cons.prems [rule_format, of "[]" "(p # ps) @ rest"] by simp
  moreover have "\<forall>pre' rest'. ps @ rest = pre' @ rest' \<and> length pre' < length ps \<longrightarrow> \<not> date_at rest'"
  proof (intro allI impI)
    fix pre' rest' assume a: "ps @ rest = pre' @ rest' \<and> length pre' < length ps"
    then have "(p # ps) @ rest = (p # pre') @ rest' \<and> length (p # pre') < length (p # ps)" by simp
    with Cons.prems show "\<not> date_at rest'" by blast
  qed
  ultimately show ?case using Cons.IH by simp
qed

lemma re_search_date_None:
  "(\<forall>pre rest. s = pre @ rest \<longrightarrow> \<not> date_at rest) \<Longrightarrow> re_search_date s = None"
proof (induction s)
  case Nil
  then show ?case by simp
next
  case (Cons c cs)
  have "\<not> date_at (c # cs)" using Cons.prems [rule_format, of "[]" "c # cs"] by simp
  moreover have "\<forall>pre rest. cs = pre @ rest \<longrightarrow> \<not> date_at rest"
  proof (intro allI impI)
    fix pre rest assume "cs = pre @ rest"
    then have "c # cs = (c # pre) @ rest" by simp
    with Cons.prems show "\<not> date_at rest" by blast
  qed
  ultimately show ?case using Cons.IH by simp
qed

lemma re_search_date_Some_shape:
  "re_search_date s = Some (year, month) \<Longrightarrow> length month = 2 \<and> list_all is_digit month"
  by (induction s) (auto simp: date_at_def split: if_splits)

lemma classify_monthly_lookup:
  "lookup_dd (fst (classify_monthly walk (rbm, msgs))) month =
     lookup_dd rbm month @
       map snd (filter (\<lambda>(fname, path). endswith_tif fname \<and> month_key fname = Some month) walk)"
proof (induction walk arbitrary: rbm msgs)
  case Nil
  then show ?case by simp
next
  case (Cons entry walk)
  obtain fname path where entry: "entry = (fname, path)" by (cases entry)
  show ?case
    unfolding entry
    by (cases "re_search_date fname")
       (auto simp: Cons.IH lookup_dd_append month_key_def)
qed


lemma date_at_split:
  assumes "date_at rest"
  shows "\<exists>d suf. rest = d @ suf \<and> date_shaped d"
proof -
  from assms have len: "length (take 10 rest) = 10" by (simp add: date_at_def)
  have "date_at (take 10 rest @ drop 10 rest)" using assms by simp
  then have "date_shaped (take 10 rest)" using date_at_append [OF len] by blast
  moreover have "rest = take 10 rest @ drop 10 rest" by simp
  ultimately show ?thesis by blast
qed

lemma classify_monthly_msgs:
  "snd (classify_monthly walk (rbm, msgs)) =
     msgs @ map (\<lambda>(fname, path). case month_key fname of
                                     Some m \<Rightarrow> Classified fname m
                                   | None \<Rightarrow> SkippingFile fname)
                (filter (\<lambda>(fname, path). endswith_tif fname) walk)"
proof (induction walk arbitrary: rbm msgs)
  case Nil
  then show ?case by simp
next
  case (Cons entry walk)
  obtain fname path where entry: "entry = (fname, path)" by (cases entry)
  show ?case
    unfolding entry
    by (cases "re_search_date fname") (auto simp: Cons.IH month_key_def)
qed

lemma month_key_leftmost:
  assumes "fname = pre @ d @ suf" and "date_shaped d"
    and "\<forall>pre' d' suf'. fname = pre' @ d' @ suf' \<and> date_shaped d' \<longrightarrow> length pre \<le> length pre'"
  shows "month_key fname = Some (take 2 (drop 5 d))"
proof -
  from assms(2) have len: "length d = 10" by (simp add: date_shaped_def)
  have at: "date_at (d @ suf)" using assms(2) date_at_append [OF len] by blast
  have first: "\<forall>pre' rest'. pre @ (d @ suf) = pre' @ rest' \<and> length pre' < length pre \<longrightarrow> \<not> date_at rest'"
  proof (intro allI impI notI)
    fix pre' rest'
    assume a: "pre @ (d @ suf) = pre' @ rest' \<and> length pre' < length pre" and "date_at rest'"
    from date_at_split [OF this(2)] obtain d' suf' where "rest' = d' @ suf'" "date_shaped d'" by blast
    with a assms(1) have "fname = pre' @ d' @ suf' \<and> date_shaped d'" by simp
    with assms(3) have "length pre \<le> length pre'" by blast
    with a show False by simp
  qed
  have "re_search_date (pre @ (d @ suf)) = Some (take 4 (d @ suf), take 2 (drop 5 (d @ suf)))"
    using re_search_date_first [OF at first] .
  then show ?thesis using len by (simp add: month_key_def assms(1))
qed

lemma month_key_no_date:
  assumes "\<forall>pre d suf. fname = pre @ d @ suf \<longrightarrow> \<not> date_shaped d"
  shows "month_key fname = None"
proof -
  have "\<forall>pre rest. fname = pre @ rest \<longrightarrow> \<not> date_at rest"
  proof (intro allI impI notI)
    fix pre rest assume "fname = pre @ rest" and "date_at rest"
    from date_at_split [OF this(2)] obtain d suf where "rest = d @ suf" "date_shaped d" by blast
    with \<open>fname = pre @ rest\<close> assms show False by blast
  qed
  then show ?thesis by (simp add: month_key_def re_search_date_None)
qed


lemma search_jan_15: "re_search_date ''flood_2021-01-15.tif'' = Some (''2021'', ''01'')"
  and search_jan_28: "re_search_date ''flood_2021-01-28.tif'' = Some (''2021'', ''01'')"
  and search_feb_01: "re_search_date ''flood_2021-02-01.tif'' = Some (''2021'', ''02'')"
  and search_two_dates: "re_search_date ''2020-05-01_2021-07-09.tif'' = Some (''2020'', ''05'')"
  by (simp_all add: date_at_def is_digit_def)

lemma endswith_tif_2021:
  "endswith_tif ''flood_2021-01-15.tif''" "endswith_tif ''flood_2021-01-28.tif''"
  "endswith_tif ''flood_2021-02-01.tif''"
  by (simp_all add: endswith_tif_def lower_char_def)

lemma classify_2021:
  "fst (classify_monthly walk_2021 ([], [])) =
     [(''01'', [''in/flood_2021-01-15.tif'', ''in/flood_2021-01-28.tif'']),
      (''02'', [''in/flood_2021-02-01.tif''])]"
  by (simp add: walk_2021_def endswith_tif_2021 search_jan_15 search_jan_28 search_feb_01
        del: re_search_date.simps)


text \<open>
  Claim C9. In the monthly run, a file name that contains a string of the form YYYY-MM-DD
  gets as key the two digits MM of the leftmost such string; a name that contains none gets
  no key. Every \<^verbatim>\<open>.tif\<close> file with a key is appended to the group of its key, every
  \<^verbatim>\<open>.tif\<close> file without one is reported as skipped, and the walk goes on with the next
  file. The three files of the scenario fall into the groups 01, 01 and 02, and of two
  dates in one name the first decides.
\<close>

theorem monthly_classifier:
  "(fname = pre @ d @ suf \<and> date_shaped d \<and>
      (\<forall>pre' d' suf'. fname = pre' @ d' @ suf' \<and> date_shaped d' \<longrightarrow> length pre \<le> length pre') \<longrightarrow>
      month_key fname = Some (take 2 (drop 5 d))) \<and>
   ((\<forall>pre d suf. fname = pre @ d @ suf \<longrightarrow> \<not> date_shaped d) \<longrightarrow> month_key fname = None) \<and>
   (month_key fname = Some month \<longrightarrow> length month = 2 \<and> list_all is_digit month) \<and>
   lookup_dd (fst (classify_monthly walk ([], []))) month =
     map snd (filter (\<lambda>(fname, path). endswith_tif fname \<and> month_key fname = Some month) walk) \<and>
   snd (classify_monthly walk ([], [])) =
     map (\<lambda>(fname, path). case month_key fname of
                              Some m \<Rightarrow> Classified fname m
                            | None \<Rightarrow> SkippingFile fname)
         (filter (\<lambda>(fname, path). endswith_tif fname) walk) \<and>
   fst (classify_monthly walk_2021 ([], [])) =
     [(''01'', [''in/flood_2021-01-15.tif'', ''in/flood_2021-01-28.tif'']),
      (''02'', [''in/flood_2021-02-01.tif''])] \<and>
   month_key ''2020-05-01_2021-07-09.tif'' = Some ''05''"
proof (intro conjI impI)
  assume "fname = pre @ d @ suf \<and> date_shaped d \<and>
      (\<forall>pre' d' suf'. fname = pre' @ d' @ suf' \<and> date_shaped d' \<longrightarrow> length pre \<le> length pre')"
  then show "month_key fname = Some (take 2 (drop 5 d))"
    using month_key_leftmost by blast
next
  assume "\<forall>pre d suf. fname = pre @ d @ suf \<longrightarrow> \<not> date_shaped d"
  then show "month_key fname = None" by (rule month_key_no_date)
next
  assume k: "month_key fname = Some month"
  then obtain year where "re_search_date fname = Some (year, month)"
    by (auto simp: month_key_def)
  from re_search_date_Some_shape [OF this]
  show "length month = 2" "list_all is_digit month" by simp_all
next
  show "lookup_dd (fst (classify_monthly walk ([], []))) month =
     map snd (filter (\<lambda>(fname, path). endswith_tif fname \<and> month_key fname = Some month) walk)"
  proof -
    have "lookup_dd ([] :: (string \<times> string list) list) month = []" by (simp add: lookup_dd_def)
    then show ?thesis by (simp add: classify_monthly_lookup)
  qed
  show "snd (classify_monthly walk ([], [])) =
     map (\<lambda>(fname, path). case month_key fname of
                              Some m \<Rightarrow> Classified fname m
                            | None \<Rightarrow> SkippingFile fname)
         (filter (\<lambda>(fname, path). endswith_tif fname) walk)"
    by (simp add: classify_monthly_msgs)
  show "fst (classify_monthly walk_2021 ([], [])) =
     [(''01'', [''in/flood_2021-01-15.tif'', ''in/flood_2021-01-28.tif'']),
      (''02'', [''in/flood_2021-02-01.tif''])]"
    by (rule classify_2021)
  show "month_key ''2020-05-01_2021-07-09.tif'' = Some ''05''"
    by (simp add: month_key_def search_two_dates del: re_search_date.simps)
qed

theorem monthly_classifier_witness:
  "''2021-01-15.tif'' = [] @ ''2021-01-15'' @ ''.tif'' \<and> date_shaped ''2021-01-15'' \<and>
   month_key ''2021-01-15.tif'' = Some ''01'' \<and> length ''01'' = 2 \<and> list_all is_digit ''01'' \<and>
   month_key ''dem.tif'' = None"
proof -
  have split: "''2021-01-15.tif'' = [] @ ''2021-01-15'' @ ''.tif''" by simp
  have shaped: "date_shaped ''2021-01-15''" by (simp add: date_shaped_def is_digit_def)
  have leftmost: "\<forall>pre' d' suf'. ''2021-01-15.tif'' = pre' @ d' @ suf' \<and> date_shaped d' \<longrightarrow>
      length ([] :: string) \<le> length pre'" by simp
  have none: "\<forall>pre d suf. ''dem.tif'' = pre @ d @ suf \<longrightarrow> \<not> date_shaped d"
  proof (intro allI impI notI)
    fix pre d suf :: string
    assume "''dem.tif'' = pre @ d @ suf" and "date_shaped d"
    then have "length ''dem.tif'' = length pre + length d + length suf" "length d = 10"
      by (simp_all add: date_shaped_def)
    then show False by simp
  qed
  note a = monthly_classifier [where fname = "''2021-01-15.tif''" and pre = "[]"
      and d = "''2021-01-15''" and suf = "''.tif''" and month = "''01''"]
  note b = monthly_classifier [where fname = "''dem.tif''"]
  from a [THEN conjunct1] split shaped leftmost
  have "month_key ''2021-01-15.tif'' = Some (take 2 (drop 5 ''2021-01-15''))" by blast
  then have key: "month_key ''2021-01-15.tif'' = Some ''01''" by simp
  from a [THEN conjunct2, THEN conjunct2, THEN conjunct1] key
  have two: "length ''01'' = 2 \<and> list_all is_digit ''01''" by blast
  from b [THEN conjunct2, THEN conjunct1] none have nokey: "month_key ''dem.tif'' = None" by blast
  show ?thesis
    by (intro conjI split shaped key nokey two [THEN conjunct1] two [THEN conjunct2])
qed

subsection \<open>One file for each month of a season\<close>












end
